theory Spec2Isabelle
  imports Complex_Main "HOL-Library.AList" "HOL-Library.Word"
begin

section \<open>Values of type float64\<close>

text \<open>
  The probabilities are Go \<open>float64\<close> values. A finite value is modelled by the real
  number it denotes; rounding, overflow and the sign of zero are not modelled. What is
  modelled of IEEE 754 is what decides the control flow of \<open>isCopyrighted\<close>: a division
  by zero does not panic but yields an infinity or NaN, and every comparison with NaN
  is false. Where a rounded product, sum or quotient falls on the other side of the
  threshold than the exact one, or overflows, the program decides otherwise than these
  definitions; no such score is evaluated below.
\<close>

datatype f64 = Fin real | PInf | NInf | NaN

fun f64_mul :: "f64 \<Rightarrow> f64 \<Rightarrow> f64" where
  "f64_mul (Fin a) (Fin b) = Fin (a * b)"
| "f64_mul (Fin a) PInf = (if a = 0 then NaN else if 0 < a then PInf else NInf)"
| "f64_mul (Fin a) NInf = (if a = 0 then NaN else if 0 < a then NInf else PInf)"
| "f64_mul PInf (Fin b) = (if b = 0 then NaN else if 0 < b then PInf else NInf)"
| "f64_mul NInf (Fin b) = (if b = 0 then NaN else if 0 < b then NInf else PInf)"
| "f64_mul PInf PInf = PInf"
| "f64_mul PInf NInf = NInf"
| "f64_mul NInf PInf = NInf"
| "f64_mul NInf NInf = PInf"
| "f64_mul NaN _ = NaN"
| "f64_mul _ NaN = NaN"

fun f64_add :: "f64 \<Rightarrow> f64 \<Rightarrow> f64" where
  "f64_add (Fin a) (Fin b) = Fin (a + b)"
| "f64_add (Fin a) PInf = PInf"
| "f64_add (Fin a) NInf = NInf"
| "f64_add PInf (Fin b) = PInf"
| "f64_add NInf (Fin b) = NInf"
| "f64_add PInf PInf = PInf"
| "f64_add NInf NInf = NInf"
| "f64_add PInf NInf = NaN"
| "f64_add NInf PInf = NaN"
| "f64_add NaN _ = NaN"
| "f64_add _ NaN = NaN"

fun f64_div :: "f64 \<Rightarrow> f64 \<Rightarrow> f64" where
  "f64_div (Fin a) (Fin b) =
     (if b = 0 then (if a = 0 then NaN else if 0 < a then PInf else NInf)
      else Fin (a / b))"
| "f64_div (Fin a) PInf = Fin 0"
| "f64_div (Fin a) NInf = Fin 0"
| "f64_div PInf (Fin b) = (if 0 \<le> b then PInf else NInf)"
| "f64_div NInf (Fin b) = (if 0 \<le> b then NInf else PInf)"
| "f64_div PInf PInf = NaN"
| "f64_div PInf NInf = NaN"
| "f64_div NInf PInf = NaN"
| "f64_div NInf NInf = NaN"
| "f64_div NaN _ = NaN"
| "f64_div _ NaN = NaN"

fun f64_lt :: "f64 \<Rightarrow> f64 \<Rightarrow> bool" where
  "f64_lt (Fin a) (Fin b) = (a < b)"
| "f64_lt (Fin a) PInf = True"
| "f64_lt NInf (Fin b) = True"
| "f64_lt NInf PInf = True"
| "f64_lt _ _ = False"

fun f64_ge :: "f64 \<Rightarrow> f64 \<Rightarrow> bool" where
  "f64_ge (Fin a) (Fin b) = (b \<le> a)"
| "f64_ge PInf (Fin b) = True"
| "f64_ge (Fin a) NInf = True"
| "f64_ge PInf NInf = True"
| "f64_ge PInf PInf = True"
| "f64_ge NInf NInf = True"
| "f64_ge _ _ = False"

section \<open>The score fusion engine\<close>

text \<open>\<open>model.Copyright\<close>: one candidate match of one modality.\<close>

record Copyright =
  Name :: string
  Probability :: f64

text \<open>The zero value \<open>model.Copyright{}\<close>.\<close>

definition Copyright_zero :: Copyright where
  "Copyright_zero = \<lparr>Name = [], Probability = Fin 0\<rparr>"

text \<open>
  A Go \<open>map[string]float64\<close> is an association list with distinct keys. Reading a
  missing key gives the zero value. The order in which a \<open>range\<close> statement visits
  the keys is chosen by the runtime, anew for every loop: each of the two \<open>range\<close>
  loops over \<open>videoMap\<close> takes the order of its visit as a parameter, and
  \<open>range_order\<close> says that such a list is an order in which the keys of a map can
  be visited.
\<close>

type_synonym gomap = "(string \<times> f64) list"

definition map_index :: "gomap \<Rightarrow> string \<Rightarrow> f64" where
  "map_index m k = (case map_of m k of None \<Rightarrow> Fin 0 | Some v \<Rightarrow> v)"

definition range_order :: "gomap \<Rightarrow> string list \<Rightarrow> bool" where
  "range_order m ks \<longleftrightarrow> distinct ks \<and> set ks = set (map fst m)"

text \<open>The two loops that fill \<open>videoMap\<close> and \<open>audioMap\<close>.\<close>

definition build_map :: "Copyright list \<Rightarrow> gomap" where
  "build_map cs = fold (\<lambda>c m. AList.update (Name c) (Probability c) m) cs []"

text \<open>
  The body of the first loop over \<open>videoMap\<close>: a key that \<open>audioMap\<close> lacks is
  deleted, the value of any other key is replaced by the harmonic mean.
\<close>

definition harmonic :: "f64 \<Rightarrow> f64 \<Rightarrow> f64" where
  "harmonic v a = f64_div (f64_mul (Fin 2) (f64_mul v a)) (f64_add v a)"

definition fuse_step :: "gomap \<Rightarrow> string \<Rightarrow> gomap \<Rightarrow> gomap" where
  "fuse_step audioMap k videoMap =
     (case map_of audioMap k of
        None \<Rightarrow> AList.delete k videoMap
      | Some _ \<Rightarrow> AList.update k (harmonic (map_index videoMap k) (map_index audioMap k)) videoMap)"

text \<open>
  The loop \<open>for i := range finProbs\<close>: the indices \<open>0 .. len(finProbs) - 1\<close> are fixed
  when the loop starts, while the body shortens the slice. Reading \<open>finProbs[i]\<close> at an
  index that is no longer below the length panics.
\<close>

datatype panic = IndexOutOfRange nat nat

definition threshold :: f64 where
  "threshold = Fin 0.75"

fun discard_loop :: "nat list \<Rightarrow> Copyright list \<Rightarrow> panic + Copyright list" where
  "discard_loop [] finProbs = Inr finProbs"
| "discard_loop (i # is) finProbs =
     (if length finProbs \<le> i then Inl (IndexOutOfRange i (length finProbs))
      else if f64_lt (Probability (finProbs ! i)) threshold then
        discard_loop is
          (take (length finProbs - 1)
             (finProbs[i := finProbs ! (length finProbs - 1),
                       length finProbs - 1 := Copyright_zero]))
      else discard_loop is finProbs)"

text \<open>
  \<open>sort.Slice\<close> with the comparison \<open>lt\<close>. For at most twelve elements the Go
  library sorts by insertion, each element moving down past the elements it is less
  than; this is that sort, the sorted part kept in reverse. For longer slices the library
  may order equal elements differently; of the sorting of a longer slice the theorems
  below use only that it keeps the elements and puts them in ascending order.
\<close>

fun insert_back :: "('a \<Rightarrow> 'a \<Rightarrow> bool) \<Rightarrow> 'a \<Rightarrow> 'a list \<Rightarrow> 'a list" where
  "insert_back lt x [] = [x]"
| "insert_back lt x (y # ys) =
     (if lt x y then y # insert_back lt x ys else x # y # ys)"

definition sort_Slice :: "('a \<Rightarrow> 'a \<Rightarrow> bool) \<Rightarrow> 'a list \<Rightarrow> 'a list" where
  "sort_Slice lt xs = rev (fold (insert_back lt) xs [])"

text \<open>
  \<open>isCopyrighted\<close>; \<open>ks1\<close> and \<open>ks2\<close> are the orders in which the first and the
  second \<open>range\<close> loop over \<open>videoMap\<close> visit its keys.
\<close>

definition fused_map :: "string list \<Rightarrow> Copyright list \<Rightarrow> Copyright list \<Rightarrow> gomap" where
  "fused_map ks1 videoCopyright audioCopyright =
     fold (fuse_step (build_map audioCopyright)) ks1 (build_map videoCopyright)"

definition isCopyrighted ::
  "string list \<Rightarrow> string list \<Rightarrow> Copyright list \<Rightarrow> Copyright list \<Rightarrow> panic + string \<times> bool" where
  "isCopyrighted ks1 ks2 videoCopyright audioCopyright =
     (if length videoCopyright = 0 \<or> length audioCopyright = 0 then Inr ([], False)
      else
        let videoMap = fused_map ks1 videoCopyright audioCopyright in
        if length videoMap = 0 then Inr ([], False)
        else
          let finProbs = map (\<lambda>k. \<lparr>Name = k, Probability = map_index videoMap k\<rparr>) ks2 in
          case discard_loop [0..<length finProbs] finProbs of
            Inl p \<Rightarrow> Inl p
          | Inr finProbs \<Rightarrow>
              let finProbs = sort_Slice (\<lambda>x y. f64_lt (Probability x) (Probability y)) finProbs in
              if length finProbs = 0 then Inr ([], False)
              else Inr (Name (finProbs ! 0), True))"

section \<open>JSON values and \<open>encoding/json\<close>\<close>

text \<open>
  A JSON text is modelled by the value it denotes. A number keeps whether its literal is
  an integer literal (\<open>IntLit\<close>) or has a fraction or an exponent (\<open>FracLit\<close>): only the
  first decodes into an \<open>int64\<close>. An object is the list of its members in the order of
  the text; the objects that the programs of this system write have no key twice.
\<close>

datatype jnumber = IntLit int | FracLit real

datatype json =
    JNull
  | JBool bool
  | JNumber jnumber
  | JString string
  | JArray "json list"
  | JObject "(string \<times> json) list"

text \<open>
  A byte slice that is handed to \<open>json.Unmarshal\<close> or stored in a JSONB column: the
  nil slice (\<open>Empty\<close>, what a NULL column is read as), the text of a JSON value, or other
  bytes. \<open>nonempty\<close> is the test \<open>len(b) != 0\<close>; a JSON text has at least one byte.
\<close>

datatype bytes = Empty | NotJSON | Text json

fun nonempty :: "bytes \<Rightarrow> bool" where
  "nonempty Empty = False"
| "nonempty NotJSON = True"
| "nonempty (Text j) = True"

datatype error =
    SyntaxError
  | UnmarshalTypeError
  | UnsupportedValueError
  | ErrNoRows
  | InvalidRowCount
  | InvalidTextRepresentation
  | Failure string

text \<open>\<open>model.KafkaResponse\<close>, \<open>model.KafkaLink\<close> and their zero values.\<close>

record KafkaResponse =
  TaskID :: int
  Copy :: "Copyright list"

definition KafkaResponse_zero :: KafkaResponse where
  "KafkaResponse_zero = \<lparr>TaskID = 0, Copy = []\<rparr>"

record KafkaLink =
  link_TaskID :: int
  Link :: string

text \<open>
  A member of a JSON object goes to the struct field whose name is the key, or else to
  the first field whose name equals the key up to the case of letters; a key that matches
  no field is skipped. (The library also folds the two non-ASCII letters that fold to
  \<open>k\<close> and \<open>s\<close>; that is not modelled.)
\<close>

definition to_upper :: "char \<Rightarrow> char" where
  "to_upper c =
     (case map_of (zip ''abcdefghijklmnopqrstuvwxyz'' ''ABCDEFGHIJKLMNOPQRSTUVWXYZ'') c of
        None \<Rightarrow> c | Some d \<Rightarrow> d)"

definition foldName :: "string \<Rightarrow> string" where
  "foldName s = map to_upper s"

definition match_field :: "string list \<Rightarrow> string \<Rightarrow> string option" where
  "match_field names key =
     (if key \<in> set names then Some key
      else find (\<lambda>f. foldName f = foldName key) names)"

text \<open>
  Decoding a JSON value into a Go value that holds \<open>cur\<close>. \<open>null\<close> leaves a string, a
  number or a struct as it is and makes a slice nil; a value of the wrong kind, an integer
  outside \<open>int64\<close> and a number outside \<open>float64\<close> are an \<open>UnmarshalTypeError\<close>.
  The library goes on decoding after such an error and returns the first one when it is
  done; both callers drop the decoded value in that case, so the model stops at it.
\<close>

fun decode_string :: "json \<Rightarrow> string \<Rightarrow> error + string" where
  "decode_string JNull cur = Inr cur"
| "decode_string (JString s) cur = Inr s"
| "decode_string _ cur = Inl UnmarshalTypeError"

definition in_float64 :: "real \<Rightarrow> bool" where
  "in_float64 r \<longleftrightarrow> \<bar>r\<bar> < 2 ^ 1024 - 2 ^ 970"

fun decode_float64 :: "json \<Rightarrow> f64 \<Rightarrow> error + f64" where
  "decode_float64 JNull cur = Inr cur"
| "decode_float64 (JNumber (IntLit n)) cur =
     (if in_float64 (of_int n) then Inr (Fin (of_int n)) else Inl UnmarshalTypeError)"
| "decode_float64 (JNumber (FracLit r)) cur =
     (if in_float64 r then Inr (Fin r) else Inl UnmarshalTypeError)"
| "decode_float64 _ cur = Inl UnmarshalTypeError"

fun decode_int64 :: "json \<Rightarrow> int \<Rightarrow> error + int" where
  "decode_int64 JNull cur = Inr cur"
| "decode_int64 (JNumber (IntLit n)) cur =
     (if - (2 ^ 63) \<le> n \<and> n < 2 ^ 63 then Inr n else Inl UnmarshalTypeError)"
| "decode_int64 _ cur = Inl UnmarshalTypeError"

fun decode_members ::
  "(string \<Rightarrow> json \<Rightarrow> 'a \<Rightarrow> error + 'a) \<Rightarrow> (string \<times> json) list \<Rightarrow> 'a \<Rightarrow> error + 'a" where
  "decode_members field [] cur = Inr cur"
| "decode_members field ((k, v) # kvs) cur =
     (case field k v cur of
        Inl e \<Rightarrow> Inl e
      | Inr cur' \<Rightarrow> decode_members field kvs cur')"

definition Copyright_field :: "string \<Rightarrow> json \<Rightarrow> Copyright \<Rightarrow> error + Copyright" where
  "Copyright_field k v c =
     (case match_field [''Name'', ''Probability''] k of
        None \<Rightarrow> Inr c
      | Some f \<Rightarrow>
          if f = ''Name'' then
            (case decode_string v (Name c) of
               Inl e \<Rightarrow> Inl e | Inr s \<Rightarrow> Inr (c\<lparr>Name := s\<rparr>))
          else
            (case decode_float64 v (Probability c) of
               Inl e \<Rightarrow> Inl e | Inr p \<Rightarrow> Inr (c\<lparr>Probability := p\<rparr>)))"

fun decode_Copyright :: "json \<Rightarrow> Copyright \<Rightarrow> error + Copyright" where
  "decode_Copyright JNull cur = Inr cur"
| "decode_Copyright (JObject kvs) cur = decode_members Copyright_field kvs cur"
| "decode_Copyright _ cur = Inl UnmarshalTypeError"

fun decode_elements :: "json list \<Rightarrow> error + Copyright list" where
  "decode_elements [] = Inr []"
| "decode_elements (j # js) =
     (case decode_Copyright j Copyright_zero of
        Inl e \<Rightarrow> Inl e
      | Inr c \<Rightarrow> (case decode_elements js of Inl e \<Rightarrow> Inl e | Inr cs \<Rightarrow> Inr (c # cs)))"

fun decode_slice :: "json \<Rightarrow> Copyright list \<Rightarrow> error + Copyright list" where
  "decode_slice JNull cur = Inr []"
| "decode_slice (JArray js) cur = decode_elements js"
| "decode_slice _ cur = Inl UnmarshalTypeError"

definition KafkaResponse_field ::
  "string \<Rightarrow> json \<Rightarrow> KafkaResponse \<Rightarrow> error + KafkaResponse" where
  "KafkaResponse_field k v r =
     (case match_field [''task_id'', ''copyright''] k of
        None \<Rightarrow> Inr r
      | Some f \<Rightarrow>
          if f = ''task_id'' then
            (case decode_int64 v (TaskID r) of
               Inl e \<Rightarrow> Inl e | Inr n \<Rightarrow> Inr (r\<lparr>TaskID := n\<rparr>))
          else
            (case decode_slice v (Copy r) of
               Inl e \<Rightarrow> Inl e | Inr cs \<Rightarrow> Inr (r\<lparr>Copy := cs\<rparr>)))"

fun decode_KafkaResponse :: "json \<Rightarrow> KafkaResponse \<Rightarrow> error + KafkaResponse" where
  "decode_KafkaResponse JNull cur = Inr cur"
| "decode_KafkaResponse (JObject kvs) cur = decode_members KafkaResponse_field kvs cur"
| "decode_KafkaResponse _ cur = Inl UnmarshalTypeError"

text \<open>\<open>json.Unmarshal(b, &k)\<close> for a fresh \<open>var k model.KafkaResponse\<close>.\<close>

fun Unmarshal :: "bytes \<Rightarrow> error + KafkaResponse" where
  "Unmarshal (Text j) = decode_KafkaResponse j KafkaResponse_zero"
| "Unmarshal _ = Inl SyntaxError"

text \<open>
  \<open>json.Marshal\<close> of a \<open>model.Copyright\<close>: an object with the members \<open>Name\<close> and
  \<open>Probability\<close>, the number written without fraction or exponent when it is a whole
  number below \<open>1e21\<close>. NaN and the infinities have no JSON text.
\<close>

definition number_of_float64 :: "real \<Rightarrow> jnumber" where
  "number_of_float64 r =
     (if r = of_int \<lfloor>r\<rfloor> \<and> \<bar>r\<bar> < 10 ^ 21 then IntLit \<lfloor>r\<rfloor> else FracLit r)"

fun Marshal :: "Copyright \<Rightarrow> error + bytes" where
  "Marshal c =
     (case Probability c of
        Fin r \<Rightarrow>
          Inr (Text (JObject [(''Name'', JString (Name c)),
                              (''Probability'', JNumber (number_of_float64 r))]))
      | _ \<Rightarrow> Inl UnsupportedValueError)"

section \<open>The task store\<close>

text \<open>
  The tables of \<open>task_schema.sql\<close>. A nullable column is an option, \<open>None\<close> for NULL.
  \<open>task_id_seq\<close> is the last value handed out by the sequence behind \<open>BIGSERIAL\<close>.
  The queries are modelled by what their SQL computes: a lost connection is not modelled,
  and a JSONB column gives back the value that was written to it.
\<close>

datatype task_status = pg_TaskStatusInProgress | pg_TaskStatusFail | pg_TaskStatusDone

record task =
  task_id :: int
  video_name :: "string option"
  audio_file :: "string option"
  video_file :: "string option"
  preview_id :: "string option"
  status :: "task_status option"
  audio_copyright :: "json option"
  video_copyright :: "json option"

record origvideo =
  video_id :: "string option"
  video_hash :: "string option"

record database =
  task_rows :: "task list"
  task_id_seq :: int
  origvideo_rows :: "origvideo list"

text \<open>
  What the generated Go code makes of a column: a JSONB column is scanned into a byte
  slice, nil for NULL; \<open>pgtype.Text.String\<close> is the empty string for NULL. A byte slice
  bound to a JSONB parameter must be a JSON text; a nil slice is sent as NULL.
\<close>

fun scan_bytes :: "json option \<Rightarrow> bytes" where
  "scan_bytes None = Empty"
| "scan_bytes (Some j) = Text j"

fun text_String :: "string option \<Rightarrow> string" where
  "text_String None = []"
| "text_String (Some s) = s"

fun jsonb_param :: "bytes \<Rightarrow> error + json option" where
  "jsonb_param (Text j) = Inr (Some j)"
| "jsonb_param Empty = Inr None"
| "jsonb_param NotJSON = Inl InvalidTextRepresentation"

text \<open>\<open>GetTask :one\<close>: \<open>SELECT * FROM task WHERE task_id = $1 LIMIT 1\<close>.\<close>

definition pg_GetTask :: "int \<Rightarrow> database \<Rightarrow> error + task" where
  "pg_GetTask taskID d =
     (case filter (\<lambda>t. task_id t = taskID) (task_rows d) of
        [] \<Rightarrow> Inl ErrNoRows
      | t # _ \<Rightarrow> Inr t)"

text \<open>
  \<open>GetTasks :many\<close>: \<open>SELECT * FROM task ORDER BY task_id ASC LIMIT $1 OFFSET $2\<close>, with
  32-bit signed parameters. The server rejects a negative \<open>LIMIT\<close> or \<open>OFFSET\<close>.
\<close>

definition pg_GetTasks :: "32 word \<Rightarrow> 32 word \<Rightarrow> database \<Rightarrow> error + task list" where
  "pg_GetTasks lim32 off32 d =
     (if sint lim32 < 0 \<or> sint off32 < 0 then Inl InvalidRowCount
      else Inr (take (nat (sint lim32))
                  (drop (nat (sint off32)) (sort_key task_id (task_rows d)))))"

text \<open>\<open>GetTasksCount :one\<close>: \<open>SELECT count(*) FROM task\<close>.\<close>

definition pg_GetTasksCount :: "database \<Rightarrow> int" where
  "pg_GetTasksCount d = int (length (task_rows d))"

text \<open>\<open>CreateTask :one\<close>: the \<open>INSERT ... RETURNING *\<close>; the two JSONB columns stay NULL.\<close>

record CreateTaskParams =
  VideoFile :: "string option"
  AudioFile :: "string option"
  PreviewID :: "string option"
  Status :: "task_status option"
  VideoName :: "string option"

definition pg_CreateTask :: "CreateTaskParams \<Rightarrow> database \<Rightarrow> task \<times> database" where
  "pg_CreateTask arg d =
     (let t = \<lparr>task_id = task_id_seq d + 1,
                video_name = VideoName arg,
                audio_file = AudioFile arg,
                video_file = VideoFile arg,
                preview_id = PreviewID arg,
                status = Status arg,
                audio_copyright = None,
                video_copyright = None\<rparr>
      in (t, d\<lparr>task_rows := task_rows d @ [t], task_id_seq := task_id_seq d + 1\<rparr>))"

text \<open>The three \<open>UPDATE task SET ... WHERE task_id = $1\<close> queries.\<close>

definition update_where :: "int \<Rightarrow> (task \<Rightarrow> task) \<Rightarrow> database \<Rightarrow> database" where
  "update_where taskID f d =
     d\<lparr>task_rows := map (\<lambda>t. if task_id t = taskID then f t else t) (task_rows d)\<rparr>"

definition pg_UpdateTaskAudioCopyright :: "int \<Rightarrow> bytes \<Rightarrow> database \<Rightarrow> error + database" where
  "pg_UpdateTaskAudioCopyright taskID b d =
     (case jsonb_param b of
        Inl e \<Rightarrow> Inl e
      | Inr v \<Rightarrow> Inr (update_where taskID (\<lambda>t. t\<lparr>audio_copyright := v\<rparr>) d))"

definition pg_UpdateTaskVideoCopyright :: "int \<Rightarrow> bytes \<Rightarrow> database \<Rightarrow> error + database" where
  "pg_UpdateTaskVideoCopyright taskID b d =
     (case jsonb_param b of
        Inl e \<Rightarrow> Inl e
      | Inr v \<Rightarrow> Inr (update_where taskID (\<lambda>t. t\<lparr>video_copyright := v\<rparr>) d))"

definition pg_UpdateTaskStatus :: "int \<Rightarrow> task_status option \<Rightarrow> database \<Rightarrow> database" where
  "pg_UpdateTaskStatus taskID st d = update_where taskID (\<lambda>t. t\<lparr>status := st\<rparr>) d"

text \<open>
  \<open>GetOrigVideosByHash :many\<close>:
  \<open>SELECT * FROM origvideo WHERE video_hash = $1 ORDER BY video_id DESC\<close>.
  \<open>video_hash\<close> is \<open>UNIQUE\<close>, so at most one row has the hash and there is nothing to
  order; a NULL hash equals nothing.
\<close>

definition pg_GetOrigVideosByHash :: "string option \<Rightarrow> database \<Rightarrow> origvideo list" where
  "pg_GetOrigVideosByHash h d =
     filter (\<lambda>v. h \<noteq> None \<and> video_hash v = h) (origvideo_rows d)"

section \<open>The task controller\<close>

text \<open>\<open>model.TaskStatus\<close>, \<open>model.Task\<close> and the conversions from the store's rows.\<close>

datatype TaskStatus = TaskStatusDone | TaskStatusInProgress | TaskStatusFailed

record Task =
  Task_TaskID :: int
  Task_Status :: TaskStatus
  VideoCopyright :: "Copyright list"
  AudioCopyright :: "Copyright list"

text \<open>
  \<open>statusToModel\<close> is applied to \<open>t.Status.TaskStatus\<close>, which for a NULL status is a
  string that is none of the three constants: the \<open>default\<close> case.
\<close>

fun statusToModel :: "task_status option \<Rightarrow> TaskStatus" where
  "statusToModel (Some pg_TaskStatusDone) = TaskStatusDone"
| "statusToModel (Some pg_TaskStatusFail) = TaskStatusFailed"
| "statusToModel (Some pg_TaskStatusInProgress) = TaskStatusInProgress"
| "statusToModel None = TaskStatusFailed"

definition taskToModel :: "task \<Rightarrow> error + Task" where
  "taskToModel t =
     (let aud = (case Unmarshal (scan_bytes (audio_copyright t)) of
                   Inl err \<Rightarrow> KafkaResponse_zero | Inr k \<Rightarrow> k);
          vid = (case Unmarshal (scan_bytes (video_copyright t)) of
                   Inl err \<Rightarrow> KafkaResponse_zero | Inr k \<Rightarrow> k)
      in Inr \<lparr>Task_TaskID = task_id t,
              Task_Status = statusToModel (status t),
              VideoCopyright = Copy vid,
              AudioCopyright = Copy aud\<rparr>)"

fun taskSliceToModel :: "task list \<Rightarrow> error + Task list" where
  "taskSliceToModel [] = Inr []"
| "taskSliceToModel (t # ts) =
     (case taskToModel t of
        Inl err \<Rightarrow> Inl err
      | Inr m \<Rightarrow> (case taskSliceToModel ts of Inl err \<Rightarrow> Inl err | Inr ms \<Rightarrow> Inr (m # ms)))"

text \<open>
  The state the controller works on: the store, the requests published on the two input
  topics, and the calls of \<open>checkForCopyright\<close> that \<open>CreateTask\<close> has started with
  \<open>go\<close> and that have not run yet.
\<close>

record world =
  db :: database
  AudioInputTopic :: "KafkaLink list"
  VideoInputTopic :: "KafkaLink list"
  goroutines :: "task list"

text \<open>\<open>checkTaskDone\<close>, the closure of \<open>handleKafkaInput\<close>.\<close>

definition checkTaskDone :: "int \<Rightarrow> database \<Rightarrow> database" where
  "checkTaskDone taskID d =
     (case pg_GetTask taskID d of
        Inl err \<Rightarrow> d
      | Inr t \<Rightarrow>
          if nonempty (scan_bytes (audio_copyright t)) \<and> nonempty (scan_bytes (video_copyright t))
          then pg_UpdateTaskStatus taskID (Some pg_TaskStatusDone) d
          else d)"

text \<open>
  One round of each of the two loops of \<open>handleKafkaInput\<close>, for a message whose value
  is \<open>b\<close>: a message that does not decode and an update that fails are logged and the
  loop goes on.
\<close>

definition handleVideoMessage :: "bytes \<Rightarrow> world \<Rightarrow> world" where
  "handleVideoMessage b w =
     (case Unmarshal b of
        Inl err \<Rightarrow> w
      | Inr k \<Rightarrow>
          (case pg_UpdateTaskVideoCopyright (TaskID k) b (db w) of
             Inl err \<Rightarrow> w
           | Inr d \<Rightarrow> w\<lparr>db := checkTaskDone (TaskID k) d\<rparr>))"

definition handleAudioMessage :: "bytes \<Rightarrow> world \<Rightarrow> world" where
  "handleAudioMessage b w =
     (case Unmarshal b of
        Inl err \<Rightarrow> w
      | Inr k \<Rightarrow>
          (case pg_UpdateTaskAudioCopyright (TaskID k) b (db w) of
             Inl err \<Rightarrow> w
           | Inr d \<Rightarrow> w\<lparr>db := checkTaskDone (TaskID k) d\<rparr>))"

text \<open>
  \<open>CreateTask\<close>. The upload to the object store with the extraction of the audio track
  (\<open>makePreviewUploadVideo\<close>) and the hash of the stored video (\<open>getHashFromVideo\<close>) are
  done by services outside this program: their results are the parameters \<open>upload\<close>
  and \<open>hashed\<close>.
\<close>

definition CreateTask ::
  "(error + string \<times> string) \<Rightarrow> (error + string) \<Rightarrow> string \<Rightarrow> world \<Rightarrow> (error + int) \<times> world" where
  "CreateTask upload hashed filename w =
     (case upload of
        Inl err \<Rightarrow> (Inl err, w)
      | Inr (videoFile, audioFile) \<Rightarrow>
     (case hashed of
        Inl err \<Rightarrow> (Inl err, w)
      | Inr hash \<Rightarrow>
     (let videos = pg_GetOrigVideosByHash (Some hash) (db w) in
      if length videos \<noteq> 0 then
        (let (t, d1) = pg_CreateTask
                         \<lparr>VideoFile = Some videoFile, AudioFile = Some audioFile,
                          PreviewID = Some ''aaa'', Status = Some pg_TaskStatusDone,
                          VideoName = Some filename\<rparr> (db w);
             c = \<lparr>Name = text_String (video_id (videos ! 0)), Probability = Fin 1\<rparr>
         in case Marshal c of
              Inl errC \<Rightarrow> (Inl errC, w\<lparr>db := d1\<rparr>)
            | Inr copyright \<Rightarrow>
           (case pg_UpdateTaskVideoCopyright (task_id t) copyright d1 of
              Inl errC \<Rightarrow> (Inl errC, w\<lparr>db := d1\<rparr>)
            | Inr d2 \<Rightarrow>
           (case pg_UpdateTaskAudioCopyright (task_id t) copyright d2 of
              Inl errC \<Rightarrow> (Inl errC, w\<lparr>db := d2\<rparr>)
            | Inr d3 \<Rightarrow> (Inr (task_id t), w\<lparr>db := d3\<rparr>))))
      else
        (let (t, d1) = pg_CreateTask
                         \<lparr>VideoFile = Some videoFile, AudioFile = Some audioFile,
                          PreviewID = Some ''aaa'', Status = Some pg_TaskStatusInProgress,
                          VideoName = Some filename\<rparr> (db w)
         in (Inr (task_id t), w\<lparr>db := d1, goroutines := goroutines w @ [t]\<rparr>)))))"

text \<open>
  \<open>checkForCopyright\<close>. The two URLs come from the object store and the two messages
  go to the broker: what these answer are the parameters \<open>audioUrl\<close>, \<open>videoUrl\<close>,
  \<open>writeAudio\<close> and \<open>writeVideo\<close> (\<open>None\<close> for a message that was accepted).
\<close>

definition checkForCopyright ::
  "(error + string) \<Rightarrow> (error + string) \<Rightarrow> error option \<Rightarrow> error option \<Rightarrow> task \<Rightarrow> world
     \<Rightarrow> error option \<times> world" where
  "checkForCopyright audioUrl videoUrl writeAudio writeVideo t w =
     (let w1 = w\<lparr>db := pg_UpdateTaskStatus (task_id t) (Some pg_TaskStatusInProgress) (db w)\<rparr> in
      case audioUrl of
        Inl err \<Rightarrow> (Some err, w1)
      | Inr aurl \<Rightarrow>
     (case videoUrl of
        Inl err \<Rightarrow> (Some err, w1)
      | Inr vurl \<Rightarrow>
     (case writeAudio of
        Some err \<Rightarrow> (Some err, w1)
      | None \<Rightarrow>
     (let w2 = w1\<lparr>AudioInputTopic :=
                    AudioInputTopic w1 @ [\<lparr>link_TaskID = task_id t, Link = aurl\<rparr>]\<rparr> in
      case writeVideo of
        Some err \<Rightarrow> (Some err, w2)
      | None \<Rightarrow>
          (None, w2\<lparr>VideoInputTopic :=
                      VideoInputTopic w2 @ [\<lparr>link_TaskID = task_id t, Link = vurl\<rparr>]\<rparr>)))))"

text \<open>\<open>GetTask\<close> and \<open>GetTasks\<close>, with the state they leave.\<close>

definition GetTask :: "int \<Rightarrow> world \<Rightarrow> (error + Task) \<times> world" where
  "GetTask taskID w =
     (case pg_GetTask taskID (db w) of
        Inl err \<Rightarrow> (Inl err, w)
      | Inr pgtask \<Rightarrow>
          (case taskToModel pgtask of
             Inl err \<Rightarrow> (Inl err, w)
           | Inr t \<Rightarrow> (Inr t, w)))"

definition GetTasks :: "64 word \<Rightarrow> 64 word \<Rightarrow> world \<Rightarrow> (error + Task list \<times> int) \<times> world" where
  "GetTasks limit offset w =
     (case pg_GetTasks (ucast limit) (ucast offset) (db w) of
        Inl err \<Rightarrow> (Inl err, w)
      | Inr pgtasks \<Rightarrow>
          (case taskSliceToModel pgtasks of
             Inl err \<Rightarrow> (Inl err, w)
           | Inr tasks \<Rightarrow> (Inr (tasks, pg_GetTasksCount (db w)), w)))"

text \<open>
  \<open>CreateTask\<close> on a store that can fail. Each query of \<open>CreateTask\<close> is a statement
  of its own, committed when it returns, and each has its own error return: when the
  connection is lost at a query, the call returns the error and the statements before it
  stay committed. \<open>faults\<close> says at which of the four queries of a call, if any, the
  connection fails.
\<close>

record faults =
  lookup_fails :: "error option"
  insert_fails :: "error option"
  video_update_fails :: "error option"
  audio_update_fails :: "error option"

definition no_faults :: faults where
  "no_faults =
     \<lparr>lookup_fails = None, insert_fails = None,
      video_update_fails = None, audio_update_fails = None\<rparr>"

definition CreateTask_with_faults ::
  "faults \<Rightarrow> (error + string \<times> string) \<Rightarrow> (error + string) \<Rightarrow> string \<Rightarrow> world
     \<Rightarrow> (error + int) \<times> world" where
  "CreateTask_with_faults fl upload hashed filename w =
     (case upload of
        Inl err \<Rightarrow> (Inl err, w)
      | Inr (videoFile, audioFile) \<Rightarrow>
     (case hashed of
        Inl err \<Rightarrow> (Inl err, w)
      | Inr hash \<Rightarrow>
     (case lookup_fails fl of
        Some err \<Rightarrow> (Inl err, w)
      | None \<Rightarrow>
     (let videos = pg_GetOrigVideosByHash (Some hash) (db w) in
      if length videos \<noteq> 0 then
        (case insert_fails fl of
           Some errC \<Rightarrow> (Inl errC, w)
         | None \<Rightarrow>
        (let (t, d1) = pg_CreateTask
                         \<lparr>VideoFile = Some videoFile, AudioFile = Some audioFile,
                          PreviewID = Some ''aaa'', Status = Some pg_TaskStatusDone,
                          VideoName = Some filename\<rparr> (db w);
             c = \<lparr>Name = text_String (video_id (videos ! 0)), Probability = Fin 1\<rparr>
         in case Marshal c of
              Inl errC \<Rightarrow> (Inl errC, w\<lparr>db := d1\<rparr>)
            | Inr copyright \<Rightarrow>
           (case (case video_update_fails fl of
                    Some errC \<Rightarrow> Inl errC
                  | None \<Rightarrow> pg_UpdateTaskVideoCopyright (task_id t) copyright d1) of
              Inl errC \<Rightarrow> (Inl errC, w\<lparr>db := d1\<rparr>)
            | Inr d2 \<Rightarrow>
           (case (case audio_update_fails fl of
                    Some errC \<Rightarrow> Inl errC
                  | None \<Rightarrow> pg_UpdateTaskAudioCopyright (task_id t) copyright d2) of
              Inl errC \<Rightarrow> (Inl errC, w\<lparr>db := d2\<rparr>)
            | Inr d3 \<Rightarrow> (Inr (task_id t), w\<lparr>db := d3\<rparr>)))))
      else
        (case insert_fails fl of
           Some err \<Rightarrow> (Inl err, w)
         | None \<Rightarrow>
        (let (t, d1) = pg_CreateTask
                         \<lparr>VideoFile = Some videoFile, AudioFile = Some audioFile,
                          PreviewID = Some ''aaa'', Status = Some pg_TaskStatusInProgress,
                          VideoName = Some filename\<rparr> (db w)
         in (Inr (task_id t), w\<lparr>db := d1, goroutines := goroutines w @ [t]\<rparr>)))))))"

text \<open>
  The states the program can be in: it starts with no task, and each step is a call of
  \<open>CreateTask\<close>, with or without a failure of the store, the run of a started
  \<open>checkForCopyright\<close>, or one round of one of the two loops that read results; in such
  a round the column may be written and the check for completion lost, when the store
  fails at the read of \<open>checkTaskDone\<close>. Reference videos are written by others at any
  time. A state that a call of \<open>CreateTask\<close> leaves when the store fails at a statement
  is also the state every call is in between that statement and the one before.
\<close>

definition initial :: "origvideo list \<Rightarrow> world" where
  "initial refs =
     \<lparr>db = \<lparr>task_rows = [], task_id_seq = 0, origvideo_rows = refs\<rparr>,
      AudioInputTopic = [], VideoInputTopic = [], goroutines = []\<rparr>"

inductive reachable :: "world \<Rightarrow> bool" where
  start: "reachable (initial refs)"
| create:
    "reachable w \<Longrightarrow> reachable (snd (CreateTask_with_faults fl upload hashed filename w))"
| dispatch:
    "reachable w \<Longrightarrow> t \<in> set (goroutines w) \<Longrightarrow>
     reachable (snd (checkForCopyright audioUrl videoUrl writeAudio writeVideo t
                       (w\<lparr>goroutines := remove1 t (goroutines w)\<rparr>)))"
| video: "reachable w \<Longrightarrow> reachable (handleVideoMessage b w)"
| audio: "reachable w \<Longrightarrow> reachable (handleAudioMessage b w)"
| video_unchecked:
    "reachable w \<Longrightarrow> Unmarshal b = Inr k \<Longrightarrow>
     pg_UpdateTaskVideoCopyright (TaskID k) b (db w) = Inr d \<Longrightarrow> reachable (w\<lparr>db := d\<rparr>)"
| audio_unchecked:
    "reachable w \<Longrightarrow> Unmarshal b = Inr k \<Longrightarrow>
     pg_UpdateTaskAudioCopyright (TaskID k) b (db w) = Inr d \<Longrightarrow> reachable (w\<lparr>db := d\<rparr>)"
| reference:
    "reachable w \<Longrightarrow> reachable (w\<lparr>db := (db w)\<lparr>origvideo_rows := refs\<rparr>\<rparr>)"

text \<open>The invariant of the data model: a task that is done has both columns written.\<close>

definition done_has_both :: "world \<Rightarrow> bool" where
  "done_has_both w \<longleftrightarrow>
     (\<forall>t \<in> set (task_rows (db w)).
        status t = Some pg_TaskStatusDone \<longrightarrow> video_copyright t \<noteq> None \<and> audio_copyright t \<noteq> None)"

section \<open>Auxiliary notions and concrete inputs\<close>

text \<open>
  What holds of the store in every state the program reaches: task ids are distinct and
  were handed out by the sequence.
\<close>

definition ids_fresh :: "database \<Rightarrow> bool" where
  "ids_fresh d \<longleftrightarrow>
     distinct (map task_id (task_rows d)) \<and>
     (\<forall>t \<in> set (task_rows d). task_id t \<le> task_id_seq d)"

text \<open>
  What every call of \<open>CreateTask\<close> that meets no failure of the store, every run of
  \<open>checkForCopyright\<close> and every round of the two loops keeps: moreover, a task that is
  done has both columns written.
\<close>

definition store_inv :: "database \<Rightarrow> bool" where
  "store_inv d \<longleftrightarrow>
     distinct (map task_id (task_rows d)) \<and>
     (\<forall>t \<in> set (task_rows d). task_id t \<le> task_id_seq d) \<and>
     (\<forall>t \<in> set (task_rows d).
        status t = Some pg_TaskStatusDone \<longrightarrow>
        video_copyright t \<noteq> None \<and> audio_copyright t \<noteq> None)"

text \<open>The store as the fast path of \<open>CreateTask\<close> leaves it, for the reference \<open>ref\<close>.\<close>

definition fast_path_store ::
  "string \<Rightarrow> string \<Rightarrow> string \<Rightarrow> string \<Rightarrow> database \<Rightarrow> database" where
  "fast_path_store videoFile audioFile filename ref d =
     (let c = Some (JObject [(''Name'', JString ref), (''Probability'', JNumber (IntLit 1))]) in
      d\<lparr>task_rows := task_rows d @
            [\<lparr>task_id = task_id_seq d + 1, video_name = Some filename,
              audio_file = Some audioFile, video_file = Some videoFile,
              preview_id = Some ''aaa'', status = Some pg_TaskStatusDone,
              audio_copyright = c, video_copyright = c\<rparr>],
         task_id_seq := task_id_seq d + 1\<rparr>)"

text \<open>A stored task whose video column holds JSON that is no \<open>KafkaResponse\<close>.\<close>

definition malformed_row :: task where
  "malformed_row =
     \<lparr>task_id = 1, video_name = None, audio_file = None, video_file = None,
      preview_id = None, status = Some pg_TaskStatusDone, audio_copyright = None,
      video_copyright = Some (JString ''oops'')\<rparr>"

text \<open>
  A program that knows one reference video; the same program after a video with another
  hash was submitted, and after a video with the hash of the reference was submitted;
  one result of each modality for task 1.
\<close>

definition seen :: world where
  "seen = initial [\<lparr>video_id = Some ''ref-1'', video_hash = Some ''5d41''\<rparr>]"

definition submitted :: world where
  "submitted = snd (CreateTask (Inr (''v.mp4'', ''a.wav'')) (Inr ''0000'') ''clip.mp4'' seen)"

definition resubmitted :: world where
  "resubmitted = snd (CreateTask (Inr (''v.mp4'', ''a.wav'')) (Inr ''5d41'') ''clip.mp4'' seen)"

text \<open>
  The submission of a video with the hash of the reference where the store fails at the
  first of the two updates: the call returns the error and leaves \<open>update_lost\<close>.
\<close>

definition video_update_lost :: faults where
  "video_update_lost =
     \<lparr>lookup_fails = None, insert_fails = None,
      video_update_fails = Some (Failure ''connection lost''), audio_update_fails = None\<rparr>"

definition update_lost :: world where
  "update_lost =
     snd (CreateTask_with_faults video_update_lost
            (Inr (''v.mp4'', ''a.wav'')) (Inr ''5d41'') ''clip.mp4'' seen)"

definition video_result :: bytes where
  "video_result =
     Text (JObject [(''task_id'', JNumber (IntLit 1)),
                    (''copyright'', JArray [JObject [(''Name'', JString ''A''),
                                                     (''Probability'', JNumber (FracLit 0.9))]])])"

definition audio_result :: bytes where
  "audio_result =
     Text (JObject [(''task_id'', JNumber (IntLit 1)),
                    (''copyright'', JArray [JObject [(''Name'', JString ''A''),
                                                     (''Probability'', JNumber (FracLit 0.8))]])])"

definition completed :: world where
  "completed = handleAudioMessage audio_result (handleVideoMessage video_result submitted)"

text \<open>Candidate lists: the example of the specification, and the inputs of the claims below.\<close>

definition example_video :: "Copyright list" where
  "example_video = [\<lparr>Name = ''A'', Probability = Fin 0.9\<rparr>, \<lparr>Name = ''B'', Probability = Fin 0.5\<rparr>]"

definition example_audio :: "Copyright list" where
  "example_audio = [\<lparr>Name = ''A'', Probability = Fin 0.8\<rparr>, \<lparr>Name = ''C'', Probability = Fin 0.6\<rparr>]"

definition only_A :: "Copyright list" where
  "only_A = [\<lparr>Name = ''A'', Probability = Fin 0.99\<rparr>]"

definition only_B :: "Copyright list" where
  "only_B = [\<lparr>Name = ''B'', Probability = Fin 0.99\<rparr>]"

definition zero_A :: "Copyright list" where
  "zero_A = [\<lparr>Name = ''A'', Probability = Fin 0\<rparr>]"

definition two_low :: "Copyright list" where
  "two_low = [\<lparr>Name = ''A'', Probability = Fin 0.5\<rparr>, \<lparr>Name = ''B'', Probability = Fin 0.5\<rparr>]"

definition two_low_one_high :: "Copyright list" where
  "two_low_one_high =
     [\<lparr>Name = ''A'', Probability = Fin 0.5\<rparr>, \<lparr>Name = ''B'', Probability = Fin 0.5\<rparr>,
      \<lparr>Name = ''C'', Probability = Fin 0.9\<rparr>]"

definition low_and_high :: "Copyright list" where
  "low_and_high = [\<lparr>Name = ''A'', Probability = Fin 0.5\<rparr>, \<lparr>Name = ''C'', Probability = Fin 0.9\<rparr>]"

section \<open>Facts about the store\<close>

lemma Unmarshal_Inr_Text: "Unmarshal b = Inr k \<Longrightarrow> \<exists>j. b = Text j"
  by (cases b) simp_all

lemma filter_update_rows:
  assumes "\<And>t. task_id (f t) = task_id t"
  shows "filter (\<lambda>t. task_id t = k) (map (\<lambda>t. if task_id t = k then f t else t) rows)
         = map f (filter (\<lambda>t. task_id t = k) rows)"
  using assms by (induction rows) auto

lemma pg_GetTask_update_where:
  assumes "\<And>t. task_id (f t) = task_id t"
  shows "pg_GetTask k (update_where k f d) = map_sum id f (pg_GetTask k d)"
  using filter_update_rows [OF assms, of k "task_rows d"]
  by (simp add: pg_GetTask_def update_where_def split: list.splits)

lemma update_where_twice:
  assumes "\<And>t. task_id (f t) = task_id t"
  shows "update_where k g (update_where k f d) = update_where k (g \<circ> f) d"
  using assms by (simp add: update_where_def)

lemma update_where_absorb:
  assumes "\<And>t. task_id (g t) = task_id t" and "\<And>t. f (g t) = g t"
  shows "update_where k f (update_where k g d) = update_where k g d"
  using assms by (simp add: update_where_def)

lemma checkTaskDone_cases:
  "checkTaskDone k d = d \<or>
   (\<exists>t. pg_GetTask k d = Inr t \<and> audio_copyright t \<noteq> None \<and> video_copyright t \<noteq> None \<and>
        checkTaskDone k d = update_where k (\<lambda>t. t\<lparr>status := Some pg_TaskStatusDone\<rparr>) d)"
  by (cases "pg_GetTask k d")
     (auto simp: checkTaskDone_def pg_UpdateTaskStatus_def
           elim: scan_bytes.elims nonempty.elims)

text \<open>
  Writing a column and checking for completion a second time changes nothing, for any
  write \<open>f\<close> that is not undone by the change of status.
\<close>

lemma round_twice:
  fixes f :: "task \<Rightarrow> task"
  assumes id: "\<And>t. task_id (f t) = task_id t"
    and ff: "\<And>t. f (f t) = f t"
    and fgf: "\<And>t. f ((f t)\<lparr>status := Some pg_TaskStatusDone\<rparr>)
                    = (f t)\<lparr>status := Some pg_TaskStatusDone\<rparr>"
  shows "checkTaskDone k (update_where k f (checkTaskDone k (update_where k f d)))
         = checkTaskDone k (update_where k f d)"
proof -
  let ?g = "\<lambda>t. t\<lparr>status := Some pg_TaskStatusDone\<rparr>"
  let ?d1 = "update_where k f d"
  from checkTaskDone_cases [of k ?d1] show ?thesis
  proof
    assume same: "checkTaskDone k ?d1 = ?d1"
    have "update_where k f ?d1 = ?d1"
      by (rule update_where_absorb) (simp_all add: id ff)
    with same show ?thesis by simp
  next
    assume "\<exists>t. pg_GetTask k ?d1 = Inr t \<and> audio_copyright t \<noteq> None \<and>
                 video_copyright t \<noteq> None \<and> checkTaskDone k ?d1 = update_where k ?g ?d1"
    then obtain t where t: "pg_GetTask k ?d1 = Inr t" "audio_copyright t \<noteq> None"
        "video_copyright t \<noteq> None"
      and c: "checkTaskDone k ?d1 = update_where k ?g ?d1" by blast
    let ?d2 = "update_where k ?g ?d1"
    have d2: "?d2 = update_where k (?g \<circ> f) d"
      by (simp add: update_where_twice id)
    have again_f: "update_where k f ?d2 = ?d2"
      unfolding d2 by (rule update_where_absorb) (simp_all add: id fgf)
    have "pg_GetTask k ?d2 = Inr (?g t)"
      using t(1) by (simp add: pg_GetTask_update_where)
    then have "checkTaskDone k ?d2 = update_where k ?g ?d2"
      using t(2,3) by (auto simp: checkTaskDone_def pg_UpdateTaskStatus_def)
    also have "... = ?d2"
      by (simp add: update_where_absorb)
    finally show ?thesis using c again_f by simp
  qed
qed

lemma handleVideoMessage_Text:
  assumes "Unmarshal (Text j) = Inr k"
  shows "handleVideoMessage (Text j) w =
           w\<lparr>db := checkTaskDone (TaskID k)
                    (update_where (TaskID k) (\<lambda>t. t\<lparr>video_copyright := Some j\<rparr>) (db w))\<rparr>"
  using assms by (simp add: handleVideoMessage_def pg_UpdateTaskVideoCopyright_def)

lemma handleAudioMessage_Text:
  assumes "Unmarshal (Text j) = Inr k"
  shows "handleAudioMessage (Text j) w =
           w\<lparr>db := checkTaskDone (TaskID k)
                    (update_where (TaskID k) (\<lambda>t. t\<lparr>audio_copyright := Some j\<rparr>) (db w))\<rparr>"
  using assms by (simp add: handleAudioMessage_def pg_UpdateTaskAudioCopyright_def)

lemma task_id_update:
  assumes "\<And>t. task_id (f t) = task_id t"
  shows "task_id \<circ> (\<lambda>t. if task_id t = k then f t else t) = task_id"
  using assms by (auto simp: fun_eq_iff)

lemma store_inv_update_where:
  assumes inv: "store_inv d"
    and id: "\<And>t. task_id (f t) = task_id t"
    and keep: "\<And>t. status (f t) = Some pg_TaskStatusDone \<Longrightarrow>
                 (status t = Some pg_TaskStatusDone \<longrightarrow> video_copyright t \<noteq> None \<and> audio_copyright t \<noteq> None) \<Longrightarrow>
                 video_copyright (f t) \<noteq> None \<and> audio_copyright (f t) \<noteq> None"
  shows "store_inv (update_where k f d)"
  using inv keep unfolding store_inv_def update_where_def
  by (auto simp: task_id_update [OF id] id)

lemma store_inv_insert:
  assumes "store_inv d" and "Status arg \<noteq> Some pg_TaskStatusDone"
  shows "store_inv (snd (pg_CreateTask arg d))"
  using assms unfolding store_inv_def pg_CreateTask_def
  by (force simp: Let_def)

lemma pg_GetTask_unique:
  assumes "distinct (map task_id (task_rows d))" and "pg_GetTask k d = Inr t"
    and "t' \<in> set (task_rows d)" and "task_id t' = k"
  shows "t' = t"
proof -
  from assms(2) obtain rest where "filter (\<lambda>t. task_id t = k) (task_rows d) = t # rest"
    by (auto simp: pg_GetTask_def split: list.splits)
  then have "t \<in> set (filter (\<lambda>t. task_id t = k) (task_rows d))"
    by simp
  then have "t \<in> set (task_rows d)" "task_id t = k" by auto
  with assms(1,3,4) show ?thesis
    by (metis distinct_map inj_on_def)
qed

lemma store_inv_checkTaskDone:
  assumes inv: "store_inv d"
  shows "store_inv (checkTaskDone k d)"
  using checkTaskDone_cases [of k d]
proof
  assume "checkTaskDone k d = d"
  with inv show ?thesis by simp
next
  assume "\<exists>t. pg_GetTask k d = Inr t \<and> audio_copyright t \<noteq> None \<and> video_copyright t \<noteq> None \<and>
        checkTaskDone k d = update_where k (\<lambda>t. t\<lparr>status := Some pg_TaskStatusDone\<rparr>) d"
  then obtain t where t: "pg_GetTask k d = Inr t" "audio_copyright t \<noteq> None"
      "video_copyright t \<noteq> None"
    and c: "checkTaskDone k d = update_where k (\<lambda>t. t\<lparr>status := Some pg_TaskStatusDone\<rparr>) d"
    by blast
  from inv have dist: "distinct (map task_id (task_rows d))" by (simp add: store_inv_def)
  have only: "t' = t" if "t' \<in> set (task_rows d)" "task_id t' = k" for t'
    using pg_GetTask_unique [OF dist t(1) that] .
  have "store_inv (update_where k (\<lambda>t. t\<lparr>status := Some pg_TaskStatusDone\<rparr>) d)"
    using inv t(2,3) only unfolding store_inv_def update_where_def
    by (auto simp: task_id_update)
  with c show ?thesis by simp
qed

lemma store_inv_video:
  "store_inv (db w) \<Longrightarrow> store_inv (db (handleVideoMessage b w))"
proof (cases "Unmarshal b")
  case (Inl e)
  assume "store_inv (db w)"
  with Inl show ?thesis by (simp add: handleVideoMessage_def)
next
  case (Inr k)
  assume inv: "store_inv (db w)"
  from Inr obtain j where b: "b = Text j" using Unmarshal_Inr_Text by blast
  from Inr b have u: "Unmarshal (Text j) = Inr k" by simp
  have "store_inv (update_where (TaskID k) (\<lambda>t. t\<lparr>video_copyright := Some j\<rparr>) (db w))"
    by (rule store_inv_update_where [OF inv]) simp_all
  then show ?thesis
    unfolding b by (simp add: handleVideoMessage_Text [OF u] store_inv_checkTaskDone)
qed

lemma store_inv_audio:
  "store_inv (db w) \<Longrightarrow> store_inv (db (handleAudioMessage b w))"
proof (cases "Unmarshal b")
  case (Inl e)
  assume "store_inv (db w)"
  with Inl show ?thesis by (simp add: handleAudioMessage_def)
next
  case (Inr k)
  assume inv: "store_inv (db w)"
  from Inr obtain j where b: "b = Text j" using Unmarshal_Inr_Text by blast
  from Inr b have u: "Unmarshal (Text j) = Inr k" by simp
  have "store_inv (update_where (TaskID k) (\<lambda>t. t\<lparr>audio_copyright := Some j\<rparr>) (db w))"
    by (rule store_inv_update_where [OF inv]) simp_all
  then show ?thesis
    unfolding b by (simp add: handleAudioMessage_Text [OF u] store_inv_checkTaskDone)
qed

lemma store_inv_checkForCopyright:
  assumes "store_inv (db w)"
  shows "store_inv (db (snd (checkForCopyright audioUrl videoUrl writeAudio writeVideo t w)))"
proof -
  have "store_inv (pg_UpdateTaskStatus (task_id t) (Some pg_TaskStatusInProgress) (db w))"
    unfolding pg_UpdateTaskStatus_def
    by (rule store_inv_update_where [OF assms]) simp_all
  then show ?thesis
    by (simp add: checkForCopyright_def Let_def split: sum.splits option.splits)
qed

lemma CreateTask_fast:
  assumes hit: "pg_GetOrigVideosByHash (Some hash) (db w) \<noteq> []"
    and fresh: "\<forall>t \<in> set (task_rows (db w)). task_id t \<le> task_id_seq (db w)"
  shows "CreateTask (Inr (videoFile, audioFile)) (Inr hash) filename w =
           (Inr (task_id_seq (db w) + 1),
            w\<lparr>db := fast_path_store videoFile audioFile filename
                      (text_String (video_id (pg_GetOrigVideosByHash (Some hash) (db w) ! 0)))
                      (db w)\<rparr>)"
proof -
  have old: "map ((\<lambda>t. if task_id t = task_id_seq (db w) + 1 then f t else t) \<circ>
                  (\<lambda>t. if task_id t = task_id_seq (db w) + 1 then h t else t))
               (task_rows (db w))
             = task_rows (db w)" for f h
    using fresh by (intro map_idI) auto
  show ?thesis
    using hit
    by (simp add: CreateTask_def Let_def pg_CreateTask_def number_of_float64_def
          pg_UpdateTaskVideoCopyright_def pg_UpdateTaskAudioCopyright_def update_where_def
          fast_path_store_def old)
qed

lemma CreateTask_slow:
  assumes "pg_GetOrigVideosByHash (Some hash) (db w) = []"
  shows "snd (CreateTask (Inr (videoFile, audioFile)) (Inr hash) filename w) =
           w\<lparr>db := snd (pg_CreateTask
                     \<lparr>VideoFile = Some videoFile, AudioFile = Some audioFile,
                      PreviewID = Some ''aaa'', Status = Some pg_TaskStatusInProgress,
                      VideoName = Some filename\<rparr> (db w)),
              goroutines := goroutines w @
                [fst (pg_CreateTask
                     \<lparr>VideoFile = Some videoFile, AudioFile = Some audioFile,
                      PreviewID = Some ''aaa'', Status = Some pg_TaskStatusInProgress,
                      VideoName = Some filename\<rparr> (db w))]\<rparr>"
  using assms by (simp add: CreateTask_def Let_def split: prod.splits)

lemma store_inv_fast_path:
  assumes "store_inv d"
  shows "store_inv (fast_path_store videoFile audioFile filename ref d)"
  using assms unfolding store_inv_def fast_path_store_def
  by (force simp: Let_def)

lemma store_inv_CreateTask:
  assumes inv: "store_inv (db w)"
  shows "store_inv (db (snd (CreateTask upload hashed filename w)))"
proof (cases upload)
  case (Inl e)
  with inv show ?thesis by (simp add: CreateTask_def)
next
  case up: (Inr files)
  obtain videoFile audioFile where files: "files = (videoFile, audioFile)" by (cases files)
  show ?thesis
  proof (cases hashed)
    case (Inl e)
    with inv up files show ?thesis by (simp add: CreateTask_def)
  next
    case (Inr hash)
    show ?thesis
    proof (cases "pg_GetOrigVideosByHash (Some hash) (db w) = []")
      case True
      show ?thesis
        unfolding up files Inr
        by (simp add: CreateTask_slow [OF True] store_inv_insert [OF inv])
    next
      case False
      from inv have "\<forall>t \<in> set (task_rows (db w)). task_id t \<le> task_id_seq (db w)"
        by (simp add: store_inv_def)
      from CreateTask_fast [OF False this] show ?thesis
        unfolding up files Inr by (simp add: store_inv_fast_path [OF inv])
    qed
  qed
qed

text \<open>Without a failure of the store, \<open>CreateTask_with_faults\<close> is \<open>CreateTask\<close>.\<close>

lemma CreateTask_no_faults:
  "CreateTask_with_faults no_faults upload hashed filename w
     = CreateTask upload hashed filename w"
  by (cases upload; cases hashed)
     (auto simp: CreateTask_with_faults_def CreateTask_def no_faults_def Let_def
           split: prod.splits sum.splits)

lemma ids_fresh_update_where:
  assumes "ids_fresh d" and id: "\<And>t. task_id (f t) = task_id t"
  shows "ids_fresh (update_where k f d)"
  using assms(1) unfolding ids_fresh_def update_where_def
  by (auto simp: task_id_update [OF id] id)

lemma ids_fresh_insert: "ids_fresh d \<Longrightarrow> ids_fresh (snd (pg_CreateTask arg d))"
  unfolding ids_fresh_def pg_CreateTask_def by (force simp: Let_def)

lemma ids_fresh_video_column:
  "ids_fresh d \<Longrightarrow> pg_UpdateTaskVideoCopyright k b d = Inr d' \<Longrightarrow> ids_fresh d'"
  by (auto simp: pg_UpdateTaskVideoCopyright_def ids_fresh_update_where split: sum.splits)

lemma ids_fresh_audio_column:
  "ids_fresh d \<Longrightarrow> pg_UpdateTaskAudioCopyright k b d = Inr d' \<Longrightarrow> ids_fresh d'"
  by (auto simp: pg_UpdateTaskAudioCopyright_def ids_fresh_update_where split: sum.splits)

lemma ids_fresh_checkTaskDone: "ids_fresh d \<Longrightarrow> ids_fresh (checkTaskDone k d)"
  using checkTaskDone_cases [of k d] by (auto simp: ids_fresh_update_where)

lemma ids_fresh_video: "ids_fresh (db w) \<Longrightarrow> ids_fresh (db (handleVideoMessage b w))"
  by (auto simp: handleVideoMessage_def split: sum.splits
           intro: ids_fresh_checkTaskDone ids_fresh_video_column)

lemma ids_fresh_audio: "ids_fresh (db w) \<Longrightarrow> ids_fresh (db (handleAudioMessage b w))"
  by (auto simp: handleAudioMessage_def split: sum.splits
           intro: ids_fresh_checkTaskDone ids_fresh_audio_column)

lemma ids_fresh_checkForCopyright:
  assumes "ids_fresh (db w)"
  shows "ids_fresh (db (snd (checkForCopyright audioUrl videoUrl writeAudio writeVideo t w)))"
proof -
  have "ids_fresh (pg_UpdateTaskStatus (task_id t) (Some pg_TaskStatusInProgress) (db w))"
    unfolding pg_UpdateTaskStatus_def
    by (rule ids_fresh_update_where [OF assms]) simp
  then show ?thesis
    by (simp add: checkForCopyright_def Let_def split: sum.splits option.splits)
qed

lemma ids_fresh_CreateTask_with_faults:
  assumes fresh: "ids_fresh (db w)"
  shows "ids_fresh (db (snd (CreateTask_with_faults fl upload hashed filename w)))"
proof -
  have ins: "ids_fresh d1" if "pg_CreateTask arg (db w) = (t, d1)" for arg t d1
    using ids_fresh_insert [OF fresh, of arg] that by simp
  have vid: "ids_fresh d2"
    if "pg_CreateTask arg (db w) = (t, d1)" and "pg_UpdateTaskVideoCopyright k b d1 = Inr d2"
    for arg t d1 k b d2
    using ins [OF that(1)] that(2) by (rule ids_fresh_video_column)
  have aud: "ids_fresh d3"
    if "pg_CreateTask arg (db w) = (t, d1)" and "pg_UpdateTaskVideoCopyright k b d1 = Inr d2"
      and "pg_UpdateTaskAudioCopyright k' b' d2 = Inr d3"
    for arg t d1 k b d2 k' b' d3
    using vid [OF that(1,2)] that(3) by (rule ids_fresh_audio_column)
  show ?thesis
    using fresh
    by (auto simp: CreateTask_with_faults_def Let_def
             split: sum.splits option.splits prod.splits
             intro: ins vid aud)
qed

lemma reachable_ids_fresh: "reachable w \<Longrightarrow> ids_fresh (db w)"
proof (induction rule: reachable.induct)
  case (start refs)
  show ?case by (simp add: initial_def ids_fresh_def)
next
  case (create w fl upload hashed filename)
  then show ?case by (simp add: ids_fresh_CreateTask_with_faults)
next
  case (dispatch w t audioUrl videoUrl writeAudio writeVideo)
  then show ?case by (simp add: ids_fresh_checkForCopyright)
next
  case (video w b)
  then show ?case by (simp add: ids_fresh_video)
next
  case (audio w b)
  then show ?case by (simp add: ids_fresh_audio)
next
  case (video_unchecked w b k d)
  then show ?case by (auto intro: ids_fresh_video_column)
next
  case (audio_unchecked w b k d)
  then show ?case by (auto intro: ids_fresh_audio_column)
next
  case (reference w refs)
  then show ?case by (simp add: ids_fresh_def)
qed

lemmas decode_defs = KafkaResponse_field_def Copyright_field_def match_field_def foldName_def
  to_upper_def in_float64_def KafkaResponse_zero_def Copyright_zero_def

lemmas store_defs = pg_GetTask_def pg_CreateTask_def pg_UpdateTaskVideoCopyright_def
  pg_UpdateTaskAudioCopyright_def pg_UpdateTaskStatus_def update_where_def
  pg_GetOrigVideosByHash_def checkTaskDone_def Let_def

lemma pg_GetTask_id: "pg_GetTask k d = Inr t \<Longrightarrow> task_id t = k"
proof -
  assume "pg_GetTask k d = Inr t"
  then obtain rest where "filter (\<lambda>t. task_id t = k) (task_rows d) = t # rest"
    by (auto simp: pg_GetTask_def split: list.splits)
  then have "t \<in> set (filter (\<lambda>t. task_id t = k) (task_rows d))" by simp
  then show ?thesis by simp
qed

lemma checkTaskDone_waits:
  assumes "pg_GetTask k d = Inr t" and "audio_copyright t = None \<or> video_copyright t = None"
  shows "checkTaskDone k d = d"
  using assms by (auto simp: checkTaskDone_def)

lemma checkTaskDone_completes:
  assumes "pg_GetTask k d = Inr t" and "audio_copyright t \<noteq> None" and "video_copyright t \<noteq> None"
  shows "checkTaskDone k d = update_where k (\<lambda>t. t\<lparr>status := Some pg_TaskStatusDone\<rparr>) d"
  using assms by (auto simp: checkTaskDone_def pg_UpdateTaskStatus_def)

lemma columns_commute:
  "(\<lambda>t. t\<lparr>status := s\<rparr>) \<circ> ((\<lambda>t. t\<lparr>audio_copyright := a\<rparr>) \<circ> (\<lambda>t. t\<lparr>video_copyright := v\<rparr>))
   = (\<lambda>t. t\<lparr>status := s\<rparr>) \<circ> ((\<lambda>t::task. t\<lparr>video_copyright := v\<rparr>) \<circ> (\<lambda>t. t\<lparr>audio_copyright := a\<rparr>))"
proof
  fix t :: task
  show "((\<lambda>t. t\<lparr>status := s\<rparr>) \<circ> ((\<lambda>t. t\<lparr>audio_copyright := a\<rparr>) \<circ> (\<lambda>t. t\<lparr>video_copyright := v\<rparr>))) t
   = ((\<lambda>t. t\<lparr>status := s\<rparr>) \<circ> ((\<lambda>t::task. t\<lparr>video_copyright := v\<rparr>) \<circ> (\<lambda>t. t\<lparr>audio_copyright := a\<rparr>))) t"
    by (cases t) simp
qed

text \<open>
  The fast path in any state the program reaches: the task is done, nothing is published
  and nothing is started, and \<open>GetTask\<close> shows no candidate in either list.
\<close>

lemma fast_path_GetTask:
  assumes hit: "pg_GetOrigVideosByHash (Some hash) (db w) \<noteq> []" and reach: "reachable w"
  shows "\<exists>w'. CreateTask (Inr (videoFile, audioFile)) (Inr hash) filename w
                 = (Inr (task_id_seq (db w) + 1), w') \<and>
              AudioInputTopic w' = AudioInputTopic w \<and>
              VideoInputTopic w' = VideoInputTopic w \<and>
              goroutines w' = goroutines w \<and>
              fst (GetTask (task_id_seq (db w) + 1) w')
                = Inr \<lparr>Task_TaskID = task_id_seq (db w) + 1, Task_Status = TaskStatusDone,
                       VideoCopyright = [], AudioCopyright = []\<rparr>"
proof -
  from reach have fresh: "\<forall>t \<in> set (task_rows (db w)). task_id t \<le> task_id_seq (db w)"
    using reachable_ids_fresh by (simp add: ids_fresh_def)
  then have old: "filter (\<lambda>t. task_id t = task_id_seq (db w) + 1) (task_rows (db w)) = []"
    by (auto simp: filter_empty_conv)
  let ?ref = "text_String (video_id (pg_GetOrigVideosByHash (Some hash) (db w) ! 0))"
  let ?w' = "w\<lparr>db := fast_path_store videoFile audioFile filename ?ref (db w)\<rparr>"
  have "fst (GetTask (task_id_seq (db w) + 1) ?w')
          = Inr \<lparr>Task_TaskID = task_id_seq (db w) + 1, Task_Status = TaskStatusDone,
                 VideoCopyright = [], AudioCopyright = []\<rparr>"
    by (simp add: GetTask_def pg_GetTask_def fast_path_store_def Let_def old taskToModel_def
          decode_defs)
  with CreateTask_fast [OF hit fresh] show ?thesis by simp
qed

section \<open>Truncation to 32 bits\<close>

lemma sint_ucast_le:
  fixes x :: "64 word"
  shows "sint (ucast x :: 32 word) \<le> uint x"
proof -
  let ?y = "ucast x :: 32 word"
  have "0 \<le> uint ?y" by (rule uint_ge_0)
  then have "- (2 ^ 31) \<le> uint ?y" by (rule order_trans [rotated]) simp
  then have "signed_take_bit 31 (uint ?y) \<le> uint ?y"
    by (simp only: signed_take_bit_int_less_eq_self_iff)
  moreover have "sint ?y = signed_take_bit 31 (uint ?y)"
    by (simp add: sint_uint)
  moreover have "uint ?y = take_bit 32 (uint x)"
    by (simp add: unsigned_ucast_eq)
  moreover have "take_bit 32 (uint x) \<le> uint x"
    by (simp only: take_bit_int_less_eq_self_iff uint_ge_0)
  ultimately show ?thesis by (simp only:)
qed

lemma sint_ucast_small:
  fixes x :: "64 word"
  assumes lt: "uint x < 2 ^ 31"
  shows "sint (ucast x :: 32 word) = uint x"
proof -
  let ?y = "ucast x :: 32 word"
  have "(2::int) ^ 31 \<le> 2 ^ 32" by simp
  with lt have lt32: "uint x < 2 ^ 32" by (rule less_le_trans)
  have "uint ?y = take_bit 32 (uint x)"
    by (simp add: unsigned_ucast_eq)
  also have "\<dots> = uint x"
    by (rule take_bit_int_eq_self) (rule uint_ge_0, rule lt32)
  finally have u: "uint ?y = uint x" .
  have "0 \<le> uint x" by (rule uint_ge_0)
  then have ge: "- (2 ^ 31) \<le> uint x" by (rule order_trans [rotated]) simp
  have "sint ?y = signed_take_bit 31 (uint ?y)"
    by (simp add: sint_uint)
  also have "\<dots> = signed_take_bit 31 (uint x)"
    by (simp only: u)
  also have "\<dots> = uint x"
    by (rule signed_take_bit_int_eq_self) (rule ge, rule lt)
  finally show ?thesis .
qed

lemma taskSliceToModel_length:
  "\<exists>ms. taskSliceToModel ts = Inr ms \<and> length ms = length ts"
  by (induction ts) (auto simp: taskToModel_def Let_def)

section \<open>The claims about the task controller\<close>

text \<open>
  C1. The claim: a submission whose hash is that of a reference gives a task that is
  done, publishes nothing, and shows, through \<open>GetTask\<close>, the one match with
  probability 1 in both candidate lists. The program does the first two. It stores the
  match in both columns as a bare \<open>Copyright\<close> object, which \<open>taskToModel\<close> decodes as
  a \<open>KafkaResponse\<close> without the member \<open>copyright\<close>: \<open>GetTask\<close> shows two empty lists.
\<close>

theorem fast_path_shows_no_candidates:
  "fst (CreateTask (Inr (''v.mp4'', ''a.wav'')) (Inr ''5d41'') ''clip.mp4'' seen) = Inr 1 \<and>
   map video_copyright (task_rows (db resubmitted))
     = [Some (JObject [(''Name'', JString ''ref-1''), (''Probability'', JNumber (IntLit 1))])] \<and>
   map audio_copyright (task_rows (db resubmitted))
     = [Some (JObject [(''Name'', JString ''ref-1''), (''Probability'', JNumber (IntLit 1))])] \<and>
   AudioInputTopic resubmitted = [] \<and> VideoInputTopic resubmitted = [] \<and>
   goroutines resubmitted = [] \<and>
   fst (GetTask 1 resubmitted)
     = Inr \<lparr>Task_TaskID = 1, Task_Status = TaskStatusDone,
            VideoCopyright = [], AudioCopyright = []\<rparr>"
  by (simp add: resubmitted_def seen_def initial_def CreateTask_def store_defs
        number_of_float64_def GetTask_def taskToModel_def decode_defs Let_def)

text \<open>
  C4. The claim: in every state that \<open>CreateTask\<close> and the two loops reach, a task whose
  status is done has both columns written. The loops keep it, \<open>checkTaskDone\<close> marking
  a task done only when both columns are written. The fast path of \<open>CreateTask\<close> does
  the reverse: it inserts the task with status done and writes the two columns after
  that, in two more statements. Between the statements, and for good when the store fails
  at an update, the task is done and neither column is written.
\<close>

theorem done_before_candidates:
  "fst (CreateTask_with_faults video_update_lost
          (Inr (''v.mp4'', ''a.wav'')) (Inr ''5d41'') ''clip.mp4'' seen)
     = Inl (Failure ''connection lost'') \<and>
   reachable update_lost \<and>
   map status (task_rows (db update_lost)) = [Some pg_TaskStatusDone] \<and>
   map video_copyright (task_rows (db update_lost)) = [None] \<and>
   map audio_copyright (task_rows (db update_lost)) = [None] \<and>
   \<not> done_has_both update_lost"
proof -
  have "reachable seen"
    unfolding seen_def by (rule reachable.start)
  then have r: "reachable update_lost"
    unfolding update_lost_def by (rule reachable.create)
  have rows: "task_rows (db update_lost)
        = [\<lparr>task_id = 1, video_name = Some ''clip.mp4'', audio_file = Some ''a.wav'',
            video_file = Some ''v.mp4'', preview_id = Some ''aaa'',
            status = Some pg_TaskStatusDone, audio_copyright = None,
            video_copyright = None\<rparr>]"
    by (simp add: update_lost_def video_update_lost_def seen_def initial_def
          CreateTask_with_faults_def store_defs number_of_float64_def)
  have e: "fst (CreateTask_with_faults video_update_lost
          (Inr (''v.mp4'', ''a.wav'')) (Inr ''5d41'') ''clip.mp4'' seen)
     = Inl (Failure ''connection lost'')"
    by (simp add: video_update_lost_def seen_def initial_def
          CreateTask_with_faults_def store_defs number_of_float64_def)
  from r e show ?thesis
    by (simp add: rows done_has_both_def)
qed

text \<open>The state holds a task that is done: the invariant is not broken for want of one.\<close>

theorem done_before_candidates_witness:
  "reachable update_lost \<and>
   map status (task_rows (db update_lost)) = [Some pg_TaskStatusDone] \<and>
   map video_copyright (task_rows (db update_lost)) = [None]"
  using done_before_candidates by simp

text \<open>
  C6. For a task without results, a video result and an audio result for it give the
  same state in either order of arrival, and in that state \<open>GetTask\<close> shows the task
  done, with the candidates of the two results.
\<close>

theorem order_independent:
  assumes mv: "Unmarshal mv = Inr kv" and ma: "Unmarshal ma = Inr ka"
    and ids: "TaskID kv = tid" "TaskID ka = tid"
    and row: "pg_GetTask tid (db w) = Inr t"
    and fresh: "status t = Some pg_TaskStatusInProgress"
               "video_copyright t = None" "audio_copyright t = None"
  shows "handleAudioMessage ma (handleVideoMessage mv w)
           = handleVideoMessage mv (handleAudioMessage ma w) \<and>
         fst (GetTask tid (handleAudioMessage ma (handleVideoMessage mv w)))
           = Inr \<lparr>Task_TaskID = tid, Task_Status = TaskStatusDone,
                  VideoCopyright = Copy kv, AudioCopyright = Copy ka\<rparr>"
proof -
  from mv obtain jv where jv: "mv = Text jv" using Unmarshal_Inr_Text by blast
  from ma obtain ja where ja: "ma = Text ja" using Unmarshal_Inr_Text by blast
  from mv jv have uv: "Unmarshal (Text jv) = Inr kv" by simp
  from ma ja have ua: "Unmarshal (Text ja) = Inr ka" by simp
  let ?V = "\<lambda>t::task. t\<lparr>video_copyright := Some jv\<rparr>"
  let ?A = "\<lambda>t::task. t\<lparr>audio_copyright := Some ja\<rparr>"
  let ?G = "\<lambda>t::task. t\<lparr>status := Some pg_TaskStatusDone\<rparr>"
  let ?d = "db w"
  have gv: "pg_GetTask tid (update_where tid ?V ?d) = Inr (?V t)"
    by (simp add: pg_GetTask_update_where row)
  have ga: "pg_GetTask tid (update_where tid ?A ?d) = Inr (?A t)"
    by (simp add: pg_GetTask_update_where row)
  have v1: "handleVideoMessage mv w = w\<lparr>db := update_where tid ?V ?d\<rparr>"
    unfolding jv handleVideoMessage_Text [OF uv] ids
    using checkTaskDone_waits [OF gv] fresh by simp
  have a1: "handleAudioMessage ma w = w\<lparr>db := update_where tid ?A ?d\<rparr>"
    unfolding ja handleAudioMessage_Text [OF ua] ids
    using checkTaskDone_waits [OF ga] fresh by simp
  have gva: "pg_GetTask tid (update_where tid ?A (update_where tid ?V ?d)) = Inr (?A (?V t))"
    by (simp add: pg_GetTask_update_where gv)
  have gav: "pg_GetTask tid (update_where tid ?V (update_where tid ?A ?d)) = Inr (?V (?A t))"
    by (simp add: pg_GetTask_update_where ga)
  have va: "handleAudioMessage ma (handleVideoMessage mv w)
            = w\<lparr>db := update_where tid (?G \<circ> (?A \<circ> ?V)) ?d\<rparr>"
    unfolding v1 unfolding ja handleAudioMessage_Text [OF ua] ids
    using checkTaskDone_completes [OF gva] by (simp add: update_where_twice)
  have av: "handleVideoMessage mv (handleAudioMessage ma w)
            = w\<lparr>db := update_where tid (?G \<circ> (?V \<circ> ?A)) ?d\<rparr>"
    unfolding a1 unfolding jv handleVideoMessage_Text [OF uv] ids
    using checkTaskDone_completes [OF gav] by (simp add: update_where_twice)
  have same: "handleAudioMessage ma (handleVideoMessage mv w)
                = handleVideoMessage mv (handleAudioMessage ma w)"
    unfolding va av by (simp only: columns_commute)
  have "pg_GetTask tid (update_where tid (?G \<circ> (?A \<circ> ?V)) ?d) = Inr ((?G \<circ> (?A \<circ> ?V)) t)"
    by (simp add: pg_GetTask_update_where row)
  then have "fst (GetTask tid (handleAudioMessage ma (handleVideoMessage mv w)))
           = Inr \<lparr>Task_TaskID = tid, Task_Status = TaskStatusDone,
                  VideoCopyright = Copy kv, AudioCopyright = Copy ka\<rparr>"
    unfolding va using uv ua pg_GetTask_id [OF row]
    by (simp add: GetTask_def taskToModel_def)
  with same show ?thesis by simp
qed

theorem order_independent_witness:
  "Unmarshal video_result = Inr \<lparr>TaskID = 1, Copy = [\<lparr>Name = ''A'', Probability = Fin 0.9\<rparr>]\<rparr> \<and>
   Unmarshal audio_result = Inr \<lparr>TaskID = 1, Copy = [\<lparr>Name = ''A'', Probability = Fin 0.8\<rparr>]\<rparr> \<and>
   map_sum id status (pg_GetTask 1 (db submitted)) = Inr (Some pg_TaskStatusInProgress) \<and>
   map_sum id video_copyright (pg_GetTask 1 (db submitted)) = Inr None \<and>
   map_sum id audio_copyright (pg_GetTask 1 (db submitted)) = Inr None \<and>
   handleAudioMessage audio_result (handleVideoMessage video_result submitted)
     = handleVideoMessage video_result (handleAudioMessage audio_result submitted) \<and>
   fst (GetTask 1 (handleAudioMessage audio_result (handleVideoMessage video_result submitted)))
     = Inr \<lparr>Task_TaskID = 1, Task_Status = TaskStatusDone,
            VideoCopyright = [\<lparr>Name = ''A'', Probability = Fin 0.9\<rparr>],
            AudioCopyright = [\<lparr>Name = ''A'', Probability = Fin 0.8\<rparr>]\<rparr>"
proof -
  have v: "Unmarshal video_result = Inr \<lparr>TaskID = 1, Copy = [\<lparr>Name = ''A'', Probability = Fin 0.9\<rparr>]\<rparr>"
    by (simp add: video_result_def decode_defs)
  have a: "Unmarshal audio_result = Inr \<lparr>TaskID = 1, Copy = [\<lparr>Name = ''A'', Probability = Fin 0.8\<rparr>]\<rparr>"
    by (simp add: audio_result_def decode_defs)
  let ?t = "\<lparr>task_id = 1, video_name = Some ''clip.mp4'', audio_file = Some ''a.wav'',
            video_file = Some ''v.mp4'', preview_id = Some ''aaa'',
            status = Some pg_TaskStatusInProgress, audio_copyright = None,
            video_copyright = None\<rparr>"
  have r: "pg_GetTask 1 (db submitted) = Inr ?t"
    by (simp add: submitted_def seen_def initial_def CreateTask_def store_defs)
  have c1: "handleAudioMessage audio_result (handleVideoMessage video_result submitted)
              = handleVideoMessage video_result (handleAudioMessage audio_result submitted)"
    using order_independent [OF v a _ _ r, THEN conjunct1] by simp
  have c2: "fst (GetTask 1 (handleAudioMessage audio_result (handleVideoMessage video_result submitted)))
       = Inr \<lparr>Task_TaskID = 1, Task_Status = TaskStatusDone,
              VideoCopyright = [\<lparr>Name = ''A'', Probability = Fin 0.9\<rparr>],
              AudioCopyright = [\<lparr>Name = ''A'', Probability = Fin 0.8\<rparr>]\<rparr>"
    using order_independent [OF v a _ _ r, THEN conjunct2] by simp
  show ?thesis
    by (intro conjI; (rule v a c1 c2 | simp add: r))
qed

text \<open>
  C7. Applying the same analysis result a second time, in either of the two loops,
  leaves the state as the first application left it: the candidates of every task and
  the status of every task are what they were.
\<close>

theorem redelivery_idempotent:
  "handleVideoMessage b (handleVideoMessage b w) = handleVideoMessage b w \<and>
   handleAudioMessage b (handleAudioMessage b w) = handleAudioMessage b w"
proof (cases "Unmarshal b")
  case (Inl e)
  then show ?thesis by (simp add: handleVideoMessage_def handleAudioMessage_def)
next
  case (Inr k)
  then obtain j where b: "b = Text j" using Unmarshal_Inr_Text by blast
  from Inr b have u: "Unmarshal (Text j) = Inr k" by simp
  have "handleVideoMessage b (handleVideoMessage b w) = handleVideoMessage b w"
    unfolding b by (simp add: handleVideoMessage_Text [OF u] round_twice)
  moreover have "handleAudioMessage b (handleAudioMessage b w) = handleAudioMessage b w"
    unfolding b by (simp add: handleAudioMessage_Text [OF u] round_twice)
  ultimately show ?thesis by simp
qed

text \<open>
  \<open>GetTasks\<close> writes nothing, and whenever it returns tasks they are at most \<open>limit\<close>
  and the total is the number of tasks in the store. It returns an error exactly when
  limit or offset, cut to 32 bits and read as signed, is negative, and never when both
  are below \<open>2^31\<close>.
\<close>

lemma GetTasks_pagination:
  "snd (GetTasks limit offset w) = w \<and>
   (\<forall>tasks total. fst (GetTasks limit offset w) = Inr (tasks, total) \<longrightarrow>
       int (length tasks) \<le> uint limit \<and> total = int (length (task_rows (db w)))) \<and>
   (isl (fst (GetTasks limit offset w)) \<longleftrightarrow>
       sint (ucast limit :: 32 word) < 0 \<or> sint (ucast offset :: 32 word) < 0) \<and>
   (uint limit < 2 ^ 31 \<and> uint offset < 2 ^ 31 \<longrightarrow> \<not> isl (fst (GetTasks limit offset w)))"
proof -
  let ?l = "ucast limit :: 32 word" and ?o = "ucast offset :: 32 word"
  show ?thesis
  proof (cases "sint ?l < 0 \<or> sint ?o < 0")
    case True
    then have bad: "GetTasks limit offset w = (Inl InvalidRowCount, w)"
      by (simp add: GetTasks_def pg_GetTasks_def)
    have "\<not> (uint limit < 2 ^ 31 \<and> uint offset < 2 ^ 31)"
    proof
      assume "uint limit < 2 ^ 31 \<and> uint offset < 2 ^ 31"
      then have "sint ?l = uint limit" "sint ?o = uint offset"
        by (simp_all only: sint_ucast_small)
      moreover have "0 \<le> uint limit" "0 \<le> uint offset" by (rule uint_ge_0)+
      ultimately show False using True by linarith
    qed
    with True bad show ?thesis by (simp only: fst_conv snd_conv sum.disc simp_thms sum.simps)
  next
    case False
    let ?rows = "take (nat (sint ?l)) (drop (nat (sint ?o)) (sort_key task_id (task_rows (db w))))"
    from False have pg: "pg_GetTasks ?l ?o (db w) = Inr ?rows"
      by (simp add: pg_GetTasks_def)
    obtain ms where ms: "taskSliceToModel ?rows = Inr ms" "length ms = length ?rows"
      using taskSliceToModel_length by blast
    have res: "GetTasks limit offset w = (Inr (ms, int (length (task_rows (db w)))), w)"
      by (simp add: GetTasks_def pg ms pg_GetTasksCount_def)
    have "length ms \<le> nat (sint ?l)"
      by (simp add: ms)
    then have "int (length ms) \<le> int (nat (sint ?l))"
      by (simp only: of_nat_le_iff)
    also have "\<dots> = sint ?l"
      using False by simp
    also have "\<dots> \<le> uint limit"
      by (rule sint_ucast_le)
    finally have "int (length ms) \<le> uint limit" .
    with res False show ?thesis by simp
  qed
qed


lemma GetTasks_pagination_example:
  "uint (1 :: 64 word) < 2 ^ 31 \<and> uint (0 :: 64 word) < 2 ^ 31 \<and>
   fst (GetTasks 1 0 completed)
     = Inr ([\<lparr>Task_TaskID = 1, Task_Status = TaskStatusDone,
              VideoCopyright = [\<lparr>Name = ''A'', Probability = Fin 0.9\<rparr>],
              AudioCopyright = [\<lparr>Name = ''A'', Probability = Fin 0.8\<rparr>]\<rparr>], 1) \<and>
   int (length [\<lparr>Task_TaskID = 1, Task_Status = TaskStatusDone,
              VideoCopyright = [\<lparr>Name = ''A'', Probability = Fin 0.9\<rparr>],
              AudioCopyright = [\<lparr>Name = ''A'', Probability = Fin 0.8\<rparr>]\<rparr>]) \<le> uint (1 :: 64 word)"
  using GetTasks_pagination [of 1 0 completed]
  by (simp add: completed_def submitted_def seen_def initial_def CreateTask_def store_defs
        handleVideoMessage_def handleAudioMessage_def video_result_def audio_result_def
        decode_defs GetTasks_def pg_GetTasks_def pg_GetTasksCount_def taskToModel_def)

text \<open>
  C8. The claim: for all limits and offsets \<open>GetTasks\<close> returns at most \<open>limit\<close> tasks
  and the number of tasks in the store. \<open>GetTasks\<close> takes both as \<open>uint64\<close> and hands
  them to the query as \<open>int32(limit)\<close> and \<open>int32(offset)\<close>, unchecked. The limit \<open>2^31\<close>
  reaches the store as \<open>-2^31\<close>: the query is refused and \<open>GetTasks\<close> returns an error
  and no list, over a store that holds a task. The limit \<open>2^32\<close> reaches it as 0: an
  empty page.
\<close>

theorem GetTasks_limit_narrowed:
  "sint (ucast (2147483648 :: 64 word) :: 32 word) = - 2147483648 \<and>
   fst (GetTasks 2147483648 0 completed) = Inl InvalidRowCount \<and>
   sint (ucast (4294967296 :: 64 word) :: 32 word) = 0 \<and>
   fst (GetTasks 4294967296 0 completed) = Inr ([], 1) \<and>
   pg_GetTasksCount (db completed) = 1"
  by (simp add: completed_def submitted_def seen_def initial_def CreateTask_def store_defs
        handleVideoMessage_def handleAudioMessage_def video_result_def audio_result_def
        decode_defs GetTasks_def pg_GetTasks_def pg_GetTasksCount_def)

text \<open>
  C10. \<open>taskToModel\<close> returns no error, whatever the row: a column whose bytes do not
  decode as a \<open>KafkaResponse\<close> gives the empty candidate list. So \<open>GetTask\<close> returns an
  error exactly when the read of the store does.
\<close>

theorem taskToModel_total:
  "(\<exists>m. taskToModel t = Inr m
       \<and> (isl (Unmarshal (scan_bytes (video_copyright t))) \<longrightarrow> VideoCopyright m = [])
       \<and> (isl (Unmarshal (scan_bytes (audio_copyright t))) \<longrightarrow> AudioCopyright m = []))
   \<and> (isl (fst (GetTask taskID w)) \<longleftrightarrow> isl (pg_GetTask taskID (db w)))"
  by (auto simp: taskToModel_def GetTask_def Let_def KafkaResponse_zero_def isl_def
           split: sum.splits)

theorem taskToModel_total_witness:
  "isl (Unmarshal (scan_bytes (video_copyright malformed_row))) \<and>
   isl (Unmarshal (scan_bytes (audio_copyright malformed_row))) \<and>
   taskToModel malformed_row =
     Inr \<lparr>Task_TaskID = 1, Task_Status = TaskStatusDone,
          VideoCopyright = [], AudioCopyright = []\<rparr>"
  using taskToModel_total [of malformed_row 1 "initial []"]
  by (simp add: malformed_row_def taskToModel_def KafkaResponse_zero_def)

section \<open>Facts about the score fusion engine\<close>

lemma keys_delete: "fst ` set (AList.delete k m) = fst ` set m - {k}"
  by (auto simp: AList.delete_eq)

lemma keys_build_acc:
  "fst ` set (fold (\<lambda>c m. AList.update (Name c) (Probability c) m) cs m)
     = fst ` set m \<union> Name ` set cs"
  by (induction cs arbitrary: m) (auto simp: dom_update)

lemma keys_build_map: "fst ` set (build_map cs) = Name ` set cs"
  by (simp add: build_map_def keys_build_acc)

lemma keys_fuse_step:
  "fst ` set (fuse_step am k m)
     = (if map_of am k = None then fst ` set m - {k} else insert k (fst ` set m))"
  by (auto simp: fuse_step_def keys_delete dom_update split: option.splits)

lemma keys_fuse_fold:
  "fst ` set (fold (fuse_step am) ks m)
     = (fst ` set m \<union> {k \<in> set ks. map_of am k \<noteq> None}) - {k \<in> set ks. map_of am k = None}"
proof (induction ks arbitrary: m)
  case Nil
  show ?case by simp
next
  case (Cons k ks)
  show ?case
    unfolding fold_simps Cons.IH keys_fuse_step by auto
qed

lemma keys_fused_map:
  assumes "range_order (build_map video) ks1"
  shows "fst ` set (fused_map ks1 video audio) = Name ` set video \<inter> Name ` set audio"
proof -
  have ks1: "set ks1 = Name ` set video"
    using assms keys_build_map [of video] by (simp add: range_order_def)
  have dom: "(map_of (build_map audio) k = None) = (k \<notin> Name ` set audio)" for k
    by (simp add: map_of_eq_None_iff keys_build_map)
  show ?thesis
    unfolding fused_map_def keys_fuse_fold ks1 keys_build_map dom
    by auto
qed

lemma discard_step_subset:
  assumes "i < length fp"
  shows "set (take (length fp - 1) (fp[i := fp ! (length fp - 1), length fp - 1 := z]))
           \<subseteq> set fp"
proof -
  have "take (length fp - 1) (fp[i := fp ! (length fp - 1), length fp - 1 := z])
          = take (length fp - 1) (fp[i := fp ! (length fp - 1)])"
    by (simp add: take_update_cancel)
  moreover have "set (take (length fp - 1) (fp[i := fp ! (length fp - 1)]))
                   \<subseteq> set (fp[i := fp ! (length fp - 1)])"
    by (rule set_take_subset)
  moreover have "set (fp[i := fp ! (length fp - 1)]) \<subseteq> insert (fp ! (length fp - 1)) (set fp)"
    by (rule set_update_subset_insert)
  moreover have "fp ! (length fp - 1) \<in> set fp"
    using assms by simp
  ultimately show ?thesis by auto
qed

lemma discard_loop_subset:
  "discard_loop is fp = Inr r \<Longrightarrow> set r \<subseteq> set fp"
proof (induction "is" arbitrary: fp)
  case Nil
  then show ?case by simp
next
  case (Cons i "is")
  from Cons.prems have i: "i < length fp"
    by (auto split: if_splits)
  show ?case
  proof (cases "f64_lt (Probability (fp ! i)) threshold")
    case True
    with Cons.prems i have
      "discard_loop is (take (length fp - 1)
          (fp[i := fp ! (length fp - 1), length fp - 1 := Copyright_zero])) = Inr r"
      by simp
    from Cons.IH [OF this] discard_step_subset [OF i] show ?thesis by blast
  next
    case False
    with Cons.prems i have "discard_loop is fp = Inr r" by simp
    from Cons.IH [OF this] show ?thesis .
  qed
qed

lemma set_insert_back: "set (insert_back lt x ys) = insert x (set ys)"
  by (induction ys) auto

lemma set_fold_insert_back: "set (fold (insert_back lt) xs acc) = set xs \<union> set acc"
  by (induction xs arbitrary: acc) (auto simp: set_insert_back)

lemma set_sort_Slice: "set (sort_Slice lt xs) = set xs"
  by (simp add: sort_Slice_def set_fold_insert_back)

text \<open>Once the slice is shorter than an index still to come, the loop panics.\<close>

lemma discard_loop_doomed:
  "length fp \<le> j \<Longrightarrow> j \<in> set is \<Longrightarrow> isl (discard_loop is fp)"
proof (induction "is" arbitrary: fp)
  case Nil
  then show ?case by simp
next
  case (Cons i "is")
  show ?case
  proof (cases "length fp \<le> i")
    case True
    then show ?thesis by simp
  next
    case False
    with Cons.prems have j: "j \<in> set is" by auto
    have "isl (discard_loop is fp)"
      using Cons.IH [OF Cons.prems(1) j] .
    moreover have "isl (discard_loop is (take (length fp - 1)
          (fp[i := fp ! (length fp - 1), length fp - 1 := Copyright_zero])))"
      using Cons.prems(1) by (intro Cons.IH [OF _ j]) simp
    ultimately show ?thesis using False by simp
  qed
qed

lemma discard_loop_panics_from:
  assumes "i < length fp - 1" and "f64_lt (Probability (fp ! i)) threshold" and "j \<le> i"
  shows "isl (discard_loop [j..<length fp] fp)"
  using assms(3)
proof (induction rule: inc_induct)
  case base
  from assms(1) have "[i..<length fp] = i # [Suc i..<length fp]"
    by (simp add: upt_conv_Cons)
  moreover have "isl (discard_loop [Suc i..<length fp] (take (length fp - 1)
          (fp[i := fp ! (length fp - 1), length fp - 1 := Copyright_zero])))"
    using assms(1) by (intro discard_loop_doomed [where j = "length fp - 1"]) auto
  ultimately show ?case using assms(1,2) by simp
next
  case (step n)
  from step.hyps assms(1) have "[n..<length fp] = n # [Suc n..<length fp]"
    by (simp add: upt_conv_Cons)
  moreover have "isl (discard_loop [Suc n..<length fp] (take (length fp - 1)
          (fp[n := fp ! (length fp - 1), length fp - 1 := Copyright_zero])))"
    using step.hyps assms(1) by (intro discard_loop_doomed [where j = "length fp - 1"]) auto
  ultimately show ?case using step assms(1) by simp
qed

lemma discard_loop_panics:
  assumes "i < length fp - 1" and "f64_lt (Probability (fp ! i)) threshold"
  shows "isl (discard_loop [0..<length fp] fp)"
  using discard_loop_panics_from [OF assms, of 0] by simp

lemma discard_loop_keeps_from:
  assumes "\<forall>i < length fp - 1. \<not> f64_lt (Probability (fp ! i)) threshold" and "j \<le> length fp"
  shows "discard_loop [j..<length fp] fp =
           Inr (if j < length fp \<and> f64_lt (Probability (fp ! (length fp - 1))) threshold then take (length fp - 1) fp else fp)"
  using assms(2)
proof (induction rule: inc_induct)
  case base
  show ?case by simp
next
  case (step n)
  from step.hyps have up: "[n..<length fp] = n # [Suc n..<length fp]"
    by (simp add: upt_conv_Cons)
  show ?case
  proof (cases "Suc n = length fp")
    case True
    then have n: "n = length fp - 1" by simp
    show ?thesis
      unfolding up using True step.hyps
      by (simp add: n take_update_cancel)
  next
    case False
    with step.hyps have n: "n < length fp - 1" by simp
    with assms(1) have "\<not> f64_lt (Probability (fp ! n)) threshold" by blast
    with step n show ?thesis unfolding up by auto
  qed
qed

lemma filter_all_but_last:
  assumes "\<forall>i < length xs - 1. P (xs ! i)"
  shows "filter P xs = (if xs \<noteq> [] \<and> \<not> P (xs ! (length xs - 1)) then take (length xs - 1) xs else xs)"
proof (cases xs rule: rev_cases)
  case Nil
  then show ?thesis by simp
next
  case (snoc ys y)
  have "P (ys ! i)" if "i < length ys" for i
    using assms that by (simp add: snoc nth_append)
  then have "filter P ys = ys"
    by (auto simp: filter_id_conv in_set_conv_nth)
  then show ?thesis by (simp add: snoc)
qed

text \<open>The loop returns only if every element before the last is kept, and then it filters.\<close>

lemma discard_loop_returns:
  assumes "discard_loop [0..<length fp] fp = Inr r"
  shows "r = filter (\<lambda>c. \<not> f64_lt (Probability c) threshold) fp"
proof -
  have keep: "\<forall>i < length fp - 1. \<not> f64_lt (Probability (fp ! i)) threshold"
  proof (intro allI impI notI)
    fix i assume "i < length fp - 1" "f64_lt (Probability (fp ! i)) threshold"
    from discard_loop_panics [OF this] assms show False by simp
  qed
  from discard_loop_keeps_from [OF keep, of 0] assms
  have "r = (if 0 < length fp \<and> f64_lt (Probability (fp ! (length fp - 1))) threshold then take (length fp - 1) fp else fp)"
    by simp
  also have "\<dots> = filter (\<lambda>c. \<not> f64_lt (Probability c) threshold) fp"
    using filter_all_but_last [of fp "\<lambda>c. \<not> f64_lt (Probability c) threshold"] keep by auto
  finally show ?thesis .
qed


lemmas fusion_defs = isCopyrighted_def fused_map_def build_map_def fuse_step_def map_index_def
  harmonic_def threshold_def sort_Slice_def Copyright_zero_def range_order_def Let_def

lemma isCopyrighted_reports:
  assumes "isCopyrighted ks1 ks2 video audio = Inr (n, True)"
  shows "n \<in> set ks2 \<and> \<not> f64_lt (map_index (fused_map ks1 video audio) n) threshold"
proof -
  let ?m = "fused_map ks1 video audio"
  let ?fp = "map (\<lambda>k. \<lparr>Name = k, Probability = map_index ?m k\<rparr>) ks2"
  from assms obtain r where r: "discard_loop [0..<length ?fp] ?fp = Inr r"
    and sorted: "sort_Slice (\<lambda>x y. f64_lt (Probability x) (Probability y)) r \<noteq> []"
    and n: "n = Name (sort_Slice (\<lambda>x y. f64_lt (Probability x) (Probability y)) r ! 0)"
    by (auto simp: isCopyrighted_def Let_def split: if_splits sum.splits)
  let ?s = "sort_Slice (\<lambda>x y. f64_lt (Probability x) (Probability y)) r"
  from sorted have "?s ! 0 \<in> set ?s" by simp
  then have "?s ! 0 \<in> set r" by (simp add: set_sort_Slice)
  with discard_loop_returns [OF r]
  have "?s ! 0 \<in> set ?fp" and "\<not> f64_lt (Probability (?s ! 0)) threshold" by auto
  then show ?thesis using n by auto
qed

lemma f64_lt_asym: "f64_lt x y \<Longrightarrow> \<not> f64_lt y x"
  by (cases x; cases y) auto

lemma f64_ge_trans:
  "y \<noteq> NaN \<Longrightarrow> \<not> f64_lt x y \<Longrightarrow> \<not> f64_lt y z \<Longrightarrow> \<not> f64_lt x z"
  by (cases x; cases y; cases z) auto

text \<open>The sorted part, kept in reverse, stays in descending order.\<close>

lemma insert_back_descending:
  assumes "\<forall>c \<in> set ys. Probability c \<noteq> NaN"
    and "sorted_wrt (\<lambda>a b. \<not> f64_lt (Probability a) (Probability b)) ys"
  shows "sorted_wrt (\<lambda>a b. \<not> f64_lt (Probability a) (Probability b))
           (insert_back (\<lambda>x y. f64_lt (Probability x) (Probability y)) x ys)"
  using assms
proof (induction ys)
  case Nil
  show ?case by simp
next
  case (Cons y ys)
  show ?case
  proof (cases "f64_lt (Probability x) (Probability y)")
    case True
    with Cons show ?thesis
      by (auto simp: set_insert_back dest: f64_lt_asym)
  next
    case False
    have "\<not> f64_lt (Probability x) (Probability z)" if "z \<in> set ys" for z
      using Cons.prems that False f64_ge_trans [of "Probability y" "Probability x" "Probability z"]
      by auto
    with False Cons.prems show ?thesis by auto
  qed
qed

lemma fold_insert_back_descending:
  assumes "\<forall>c \<in> set xs \<union> set acc. Probability c \<noteq> NaN"
    and "sorted_wrt (\<lambda>a b. \<not> f64_lt (Probability a) (Probability b)) acc"
  shows "sorted_wrt (\<lambda>a b. \<not> f64_lt (Probability a) (Probability b))
           (fold (insert_back (\<lambda>x y. f64_lt (Probability x) (Probability y))) xs acc)"
  using assms
proof (induction xs arbitrary: acc)
  case Nil
  then show ?case by simp
next
  case (Cons x xs)
  have "sorted_wrt (\<lambda>a b. \<not> f64_lt (Probability a) (Probability b))
          (insert_back (\<lambda>x y. f64_lt (Probability x) (Probability y)) x acc)"
    using Cons.prems by (intro insert_back_descending) auto
  moreover have "\<forall>c \<in> set xs \<union> set (insert_back (\<lambda>x y. f64_lt (Probability x) (Probability y)) x acc).
                   Probability c \<noteq> NaN"
    using Cons.prems by (auto simp: set_insert_back)
  ultimately show ?case using Cons.IH by simp
qed

lemma sort_Slice_ascending:
  assumes "\<forall>c \<in> set xs. Probability c \<noteq> NaN"
  shows "sorted_wrt (\<lambda>a b. \<not> f64_lt (Probability b) (Probability a))
           (sort_Slice (\<lambda>x y. f64_lt (Probability x) (Probability y)) xs)"
  using fold_insert_back_descending [of xs "[]"] assms
  by (simp add: sort_Slice_def sorted_wrt_rev)

lemma sort_Slice_first_lowest:
  assumes "\<forall>c \<in> set xs. Probability c \<noteq> NaN" and "z \<in> set xs"
  shows "\<not> f64_lt (Probability z)
             (Probability (sort_Slice (\<lambda>x y. f64_lt (Probability x) (Probability y)) xs ! 0))"
proof -
  let ?s = "sort_Slice (\<lambda>x y. f64_lt (Probability x) (Probability y)) xs"
  from assms(2) have "z \<in> set ?s" by (simp add: set_sort_Slice)
  then obtain i where i: "i < length ?s" "?s ! i = z" by (auto simp: in_set_conv_nth)
  show ?thesis
  proof (cases "i = 0")
    case True
    with i have "?s ! 0 = z" by simp
    then show ?thesis by (cases "Probability z") auto
  next
    case False
    with i sort_Slice_ascending [OF assms(1)] have
      "\<not> f64_lt (Probability (?s ! i)) (Probability (?s ! 0))"
      by (auto simp: sorted_wrt_iff_nth_less)
    with i show ?thesis by simp
  qed
qed

text \<open>
  When \<open>isCopyrighted\<close> reports a name, its fused score is not below the threshold, and,
  unless some fused score is NaN, no name with a fused score at or above the threshold has
  a lower one.
\<close>

lemma isCopyrighted_reports_lowest:
  assumes res: "isCopyrighted ks1 ks2 video audio = Inr (n, True)"
    and nan: "\<forall>k \<in> set ks2. map_index (fused_map ks1 video audio) k \<noteq> NaN"
    and k: "k \<in> set ks2" "\<not> f64_lt (map_index (fused_map ks1 video audio) k) threshold"
  shows "\<not> f64_lt (map_index (fused_map ks1 video audio) k)
             (map_index (fused_map ks1 video audio) n)"
proof -
  let ?m = "fused_map ks1 video audio"
  let ?fp = "map (\<lambda>k. \<lparr>Name = k, Probability = map_index ?m k\<rparr>) ks2"
  let ?lt = "\<lambda>x y. f64_lt (Probability x) (Probability y)"
  from res obtain r where r: "discard_loop [0..<length ?fp] ?fp = Inr r"
    and sorted: "sort_Slice ?lt r \<noteq> []"
    and n: "n = Name (sort_Slice ?lt r ! 0)"
    by (auto simp: isCopyrighted_def Let_def split: if_splits sum.splits)
  have r_eq: "r = filter (\<lambda>c. \<not> f64_lt (Probability c) threshold) ?fp"
    using discard_loop_returns [OF r] .
  have sound: "Probability c = map_index ?m (Name c)" if "c \<in> set r" for c
    using that by (auto simp: r_eq)
  have no_nan: "\<forall>c \<in> set r. Probability c \<noteq> NaN"
    using nan by (auto simp: r_eq)
  from sorted have "sort_Slice ?lt r ! 0 \<in> set (sort_Slice ?lt r)" by simp
  then have first: "sort_Slice ?lt r ! 0 \<in> set r" by (simp add: set_sort_Slice)
  have "\<lparr>Name = k, Probability = map_index ?m k\<rparr> \<in> set r"
    using k by (auto simp: r_eq)
  from sort_Slice_first_lowest [OF no_nan this] sound [OF first] n
  show ?thesis by simp
qed

text \<open>
  Whether the call panics can depend on the order the runtime chooses: with \<open>A\<close> below
  the threshold and \<open>C\<close> above it, the call returns when \<open>A\<close> is visited last and
  panics when it is visited first.
\<close>

lemma panic_depends_on_order:
  "range_order (fused_map [''A'', ''C''] low_and_high low_and_high) [''C'', ''A''] \<and>
   range_order (fused_map [''A'', ''C''] low_and_high low_and_high) [''A'', ''C''] \<and>
   isCopyrighted [''A'', ''C''] [''C'', ''A''] low_and_high low_and_high = Inr (''C'', True) \<and>
   isCopyrighted [''A'', ''C''] [''A'', ''C''] low_and_high low_and_high
     = Inl (IndexOutOfRange 1 1)"
  by (auto simp: fusion_defs low_and_high_def upt_conv_Cons)

section \<open>The claims about the score fusion engine\<close>

text \<open>
  C2. The claim: a name that is reported as a duplicate has a fused score, the harmonic
  mean of its two probabilities, of at least 0.75. For a name with probability 0 in
  both lists the fused score is \<open>0 / 0\<close>, which is NaN; NaN is not below 0.75, so the
  name is kept and reported, with a score that is not at least 0.75.
\<close>

theorem zero_probabilities_reported:
  "range_order (build_map zero_A) [''A''] \<and>
   range_order (fused_map [''A''] zero_A zero_A) [''A''] \<and>
   isCopyrighted [''A''] [''A''] zero_A zero_A = Inr (''A'', True) \<and>
   harmonic (map_index (build_map zero_A) ''A'') (map_index (build_map zero_A) ''A'') = NaN \<and>
   \<not> f64_ge NaN threshold"
  by (simp add: fusion_defs zero_A_def)

text \<open>
  C3. The claim: whenever a fused score at or above the threshold survives, the name
  with the lowest such score is returned, with \<open>true\<close>. With the two names \<open>A\<close> and
  \<open>B\<close> below the threshold and \<open>C\<close> above it, the call panics instead, in whichever
  of the six orders the runtime visits the three names.
\<close>

theorem lowest_survivor_not_returned:
  "range_order (build_map two_low_one_high) [''A'', ''B'', ''C''] \<and>
   range_order (fused_map [''A'', ''B'', ''C''] two_low_one_high two_low_one_high)
     [''A'', ''B'', ''C''] \<and>
   range_order (fused_map [''A'', ''B'', ''C''] two_low_one_high two_low_one_high)
     [''A'', ''C'', ''B''] \<and>
   range_order (fused_map [''A'', ''B'', ''C''] two_low_one_high two_low_one_high)
     [''B'', ''A'', ''C''] \<and>
   range_order (fused_map [''A'', ''B'', ''C''] two_low_one_high two_low_one_high)
     [''B'', ''C'', ''A''] \<and>
   range_order (fused_map [''A'', ''B'', ''C''] two_low_one_high two_low_one_high)
     [''C'', ''A'', ''B''] \<and>
   range_order (fused_map [''A'', ''B'', ''C''] two_low_one_high two_low_one_high)
     [''C'', ''B'', ''A''] \<and>
   isCopyrighted [''A'', ''B'', ''C''] [''A'', ''B'', ''C''] two_low_one_high two_low_one_high
     = Inl (IndexOutOfRange 2 1) \<and>
   isCopyrighted [''A'', ''B'', ''C''] [''A'', ''C'', ''B''] two_low_one_high two_low_one_high
     = Inl (IndexOutOfRange 2 2) \<and>
   isCopyrighted [''A'', ''B'', ''C''] [''B'', ''A'', ''C''] two_low_one_high two_low_one_high
     = Inl (IndexOutOfRange 2 1) \<and>
   isCopyrighted [''A'', ''B'', ''C''] [''B'', ''C'', ''A''] two_low_one_high two_low_one_high
     = Inl (IndexOutOfRange 2 2) \<and>
   isCopyrighted [''A'', ''B'', ''C''] [''C'', ''A'', ''B''] two_low_one_high two_low_one_high
     = Inl (IndexOutOfRange 2 2) \<and>
   isCopyrighted [''A'', ''B'', ''C''] [''C'', ''B'', ''A''] two_low_one_high two_low_one_high
     = Inl (IndexOutOfRange 2 2)"
  by (auto simp: fusion_defs two_low_one_high_def upt_conv_Cons)

text \<open>
  C5. \<open>isCopyrighted\<close> answers that there is no duplicate when one of the two lists is
  empty, in whatever order the maps would be visited, and when no name is in both lists;
  and a name that it reports is in both lists.
\<close>

theorem isCopyrighted_needs_both:
  "(videoCopyright = [] \<or> audioCopyright = [] \<longrightarrow>
      isCopyrighted ks1 ks2 videoCopyright audioCopyright = Inr ([], False)) \<and>
   (range_order (build_map videoCopyright) ks1 \<and>
    Name ` set videoCopyright \<inter> Name ` set audioCopyright = {} \<longrightarrow>
      isCopyrighted ks1 ks2 videoCopyright audioCopyright = Inr ([], False)) \<and>
   (range_order (build_map videoCopyright) ks1 \<and>
    range_order (fused_map ks1 videoCopyright audioCopyright) ks2 \<and>
    isCopyrighted ks1 ks2 videoCopyright audioCopyright = Inr (n, True) \<longrightarrow>
      n \<in> Name ` set videoCopyright \<and> n \<in> Name ` set audioCopyright)"
proof (intro conjI impI)
  assume "videoCopyright = [] \<or> audioCopyright = []"
  then show "isCopyrighted ks1 ks2 videoCopyright audioCopyright = Inr ([], False)"
    by (auto simp: isCopyrighted_def)
next
  assume "range_order (build_map videoCopyright) ks1 \<and>
          Name ` set videoCopyright \<inter> Name ` set audioCopyright = {}"
  then have "fst ` set (fused_map ks1 videoCopyright audioCopyright) = {}"
    by (simp add: keys_fused_map)
  then have "fused_map ks1 videoCopyright audioCopyright = []" by simp
  then show "isCopyrighted ks1 ks2 videoCopyright audioCopyright = Inr ([], False)"
    by (simp add: isCopyrighted_def)
next
  assume a: "range_order (build_map videoCopyright) ks1 \<and>
    range_order (fused_map ks1 videoCopyright audioCopyright) ks2 \<and>
    isCopyrighted ks1 ks2 videoCopyright audioCopyright = Inr (n, True)"
  then have "n \<in> set ks2" using isCopyrighted_reports by blast
  with a have "n \<in> fst ` set (fused_map ks1 videoCopyright audioCopyright)"
    by (simp add: range_order_def)
  with a have "n \<in> Name ` set videoCopyright \<inter> Name ` set audioCopyright"
    by (simp add: keys_fused_map)
  then show "n \<in> Name ` set videoCopyright" and "n \<in> Name ` set audioCopyright" by auto
qed

theorem isCopyrighted_needs_both_witness:
  "isCopyrighted [] [] [] only_B = Inr ([], False) \<and>
   range_order (build_map only_A) [''A''] \<and>
   Name ` set only_A \<inter> Name ` set only_B = {} \<and>
   isCopyrighted [''A''] [] only_A only_B = Inr ([], False) \<and>
   range_order (build_map example_video) [''A'', ''B''] \<and>
   range_order (fused_map [''A'', ''B''] example_video example_audio) [''A''] \<and>
   isCopyrighted [''A'', ''B''] [''A''] example_video example_audio = Inr (''A'', True) \<and>
   ''A'' \<in> Name ` set example_video \<and> ''A'' \<in> Name ` set example_audio"
  using isCopyrighted_needs_both [of "[]" only_B "[]" "[]" "''A''"]
    isCopyrighted_needs_both [of only_A only_B "[''A'']" "[]" "''A''"]
    isCopyrighted_needs_both [of example_video example_audio "[''A'', ''B'']" "[''A'']" "''A''"]
  by (simp add: fusion_defs only_A_def only_B_def example_video_def example_audio_def)

text \<open>
  C9. The claim: \<open>isCopyrighted\<close> returns for all inputs, the loop that discards the
  scores below 0.75 never reading past the end of the slice. With two names below the
  threshold the loop shortens the slice at index 0 and reads it at index 1, past its
  end, in whichever order the names are visited.
\<close>

theorem discard_loop_index_out_of_range:
  "range_order (build_map two_low) [''A'', ''B''] \<and>
   range_order (build_map two_low) [''B'', ''A''] \<and>
   range_order (fused_map [''A'', ''B''] two_low two_low) [''A'', ''B''] \<and>
   range_order (fused_map [''A'', ''B''] two_low two_low) [''B'', ''A''] \<and>
   range_order (fused_map [''B'', ''A''] two_low two_low) [''A'', ''B''] \<and>
   range_order (fused_map [''B'', ''A''] two_low two_low) [''B'', ''A''] \<and>
   isCopyrighted [''A'', ''B''] [''A'', ''B''] two_low two_low = Inl (IndexOutOfRange 1 1) \<and>
   isCopyrighted [''A'', ''B''] [''B'', ''A''] two_low two_low = Inl (IndexOutOfRange 1 1) \<and>
   isCopyrighted [''B'', ''A''] [''A'', ''B''] two_low two_low = Inl (IndexOutOfRange 1 1) \<and>
   isCopyrighted [''B'', ''A''] [''B'', ''A''] two_low two_low = Inl (IndexOutOfRange 1 1)"
  by (auto simp: fusion_defs two_low_def upt_conv_Cons)


end
